theory Spec2Isabelle
  imports Complex_Main "HOL-Library.Signed_Division"
begin

section \<open>Vehicle sensor monitoring: a shallow embedding of main.c\<close>

text \<open>
  The program runs three threads: \<^verbatim>\<open>fast_loop_thread\<close> reads the sensors and
  updates the shared \<^verbatim>\<open>vehicle_state\<close>, \<^verbatim>\<open>slow_loop_thread\<close> evaluates three
  trigger rules on it and enqueues a report into the shared \<^verbatim>\<open>cloud_queue\<close>, and
  \<^verbatim>\<open>cloud_sender_thread\<close> drains the queue towards \<^verbatim>\<open>send_to_cloud\<close>.

  Every access to a shared object happens between \<^verbatim>\<open>pthread_mutex_lock\<close> and
  \<^verbatim>\<open>pthread_mutex_unlock\<close> of that object's mutex. The embedding takes each such
  critical section as one function from the state before to the state after, and
  leaves out the mutex field of \<^verbatim>\<open>CloudQueue\<close>. That the critical sections on
  \<^verbatim>\<open>vehicle_state\<close> may be taken so is shown on a second model, of the statements of
  the two threads and \<^verbatim>\<open>state_mutex\<close>.
  The bodies of the three endless loops are functions of one iteration; what an
  iteration reads from outside the program (the values of \<^verbatim>\<open>rand()\<close>, the clock of
  \<^verbatim>\<open>get_timestamp_ms\<close>) is an argument. The line each thread prints when it starts
  and the banner of \<^verbatim>\<open>main\<close> are left out.
\<close>

subsection \<open>Numbers\<close>

text \<open>
  A C \<^verbatim>\<open>int\<close> or \<^verbatim>\<open>long\<close> is an \<^typ>\<open>int\<close>; the queue's indices and counter stay
  within \<open>-1 .. 1000\<close> (lemma \<open>queue_inv_bounds\<close> below), and the clock's milliseconds
  and their differences within a \<^verbatim>\<open>long\<close>, far from overflow. The C operator \<^verbatim>\<open>%\<close>
  truncates towards zero: it is \<open>smod\<close>.

  A \<^verbatim>\<open>float\<close> or \<^verbatim>\<open>double\<close> is the real number it denotes: the sensor source only
  produces finite values. C rounds the result of every floating-point operation
  to the format of its type; the rounding is a parameter of the model, so that
  what is proved for every platform holds for any format and rounding mode:
  \<open>to_float\<close> rounds a real to a \<^verbatim>\<open>float\<close>, \<open>to_double\<close> to a \<^verbatim>\<open>double\<close>
  (operands of type \<^verbatim>\<open>float\<close> are computed in \<^verbatim>\<open>float\<close>, as with
  \<^verbatim>\<open>FLT_EVAL_METHOD\<close> 0). Comparisons, \<^verbatim>\<open>fabs\<close> and the conversion from
  \<^verbatim>\<open>float\<close> to \<^verbatim>\<open>double\<close> are exact. The literals \<open>0.5\<close>, \<open>2.0\<close>, \<open>5.0\<close>, \<open>20\<close>,
  \<open>25.0\<close>, \<open>70.0\<close>, \<open>75\<close>, \<open>80\<close>, \<open>100.0\<close> and \<open>3600.0\<close> are exact in every binary
  format and stand for themselves; \<open>0.01\<close> and \<open>0.001\<close> are rounded.
  \<open>RAND_MAX\<close> is a macro of \<^verbatim>\<open>stdlib.h\<close>, which is not part of the repository.
\<close>

record platform =
  to_float :: "real \<Rightarrow> real"
  to_double :: "real \<Rightarrow> real"
  RAND_MAX :: int

text \<open>
  What every rounding of IEEE 754 arithmetic has in common (to nearest, towards zero,
  upwards or downwards), as long as no result overflows: it is monotone, it keeps
  zero, and it keeps a value that is already rounded.
\<close>

definition rounding :: "(real \<Rightarrow> real) \<Rightarrow> bool" where
  "rounding f \<longleftrightarrow> mono f \<and> f 0 = 0 \<and> (\<forall>x. f (f x) = f x)"

text \<open>Three platforms to compute with: exact arithmetic; rounding downwards to
  multiples of \<open>1 / 2 ^ 30\<close> (\<^verbatim>\<open>float\<close>) and of \<open>1 / 2 ^ 40\<close> (\<^verbatim>\<open>double\<close>); and the
  arithmetic of IEEE 754, given further down.\<close>

definition exact_platform :: platform where
  "exact_platform = \<lparr>to_float = (\<lambda>x. x), to_double = (\<lambda>x. x), RAND_MAX = 2147483647\<rparr>"

definition fine_platform :: platform where
  "fine_platform =
     \<lparr>to_float = (\<lambda>x. real_of_int \<lfloor>x * 1073741824\<rfloor> / 1073741824),
      to_double = (\<lambda>x. real_of_int \<lfloor>x * 1099511627776\<rfloor> / 1099511627776),
      RAND_MAX = 32767\<rparr>"




subsection \<open>Data\<close>

record SensorData =
  battery :: real
  speed :: real
  temp :: real

record VehicleState =
  total_distance :: real
  top_speed :: real
  last_battery :: real
  is_moving :: bool
  current_sensor :: SensorData

record CloudData =
  sensor :: SensorData
  distance :: real
  top_speed :: real
  timestamp :: int

definition QUEUE_SIZE :: int where
  "QUEUE_SIZE = 1000"

text \<open>The array \<^verbatim>\<open>data[QUEUE_SIZE]\<close> is a list of that length, read and written at
  \<open>nat i\<close> for an index \<open>i\<close>; the indices used stay within \<open>0 .. 999\<close>, inside the
  array (lemma \<open>queue_inv_bounds\<close>).\<close>

record CloudQueue =
  data :: "CloudData list"
  front :: int
  rear :: int
  count :: int

datatype CloudStatus = SUCCESS | FAILURE

text \<open>What a thread does besides changing the shared state, in order: a line it
  prints (the line of \<^verbatim>\<open>send_to_cloud\<close> with the four numbers it formats), and the
  time it sleeps.\<close>

datatype event =
  Printed string
  | Printed_sent real real real real
  | Slept_seconds int
  | Slept_micros int

subsection \<open>The globals\<close>

text \<open>\<^verbatim>\<open>VehicleState vehicle_state = {0};\<close> and \<^verbatim>\<open>CloudQueue cloud_queue = {0};\<close>\<close>

definition zero_sensor :: SensorData where
  "zero_sensor = \<lparr>battery = 0, speed = 0, temp = 0\<rparr>"

definition zero_cloud_data :: CloudData where
  "zero_cloud_data = \<lparr>sensor = zero_sensor, distance = 0, top_speed = 0, timestamp = 0\<rparr>"

definition vehicle_state0 :: VehicleState where
  "vehicle_state0 =
     \<lparr>total_distance = 0, VehicleState.top_speed = 0, last_battery = 0,
      is_moving = False, current_sensor = zero_sensor\<rparr>"

definition cloud_queue0 :: CloudQueue where
  "cloud_queue0 =
     \<lparr>data = replicate (nat QUEUE_SIZE) zero_cloud_data, front = 0, rear = 0, count = 0\<rparr>"

subsection \<open>The queue\<close>

definition queue_init :: "CloudQueue \<Rightarrow> CloudQueue" where
  "queue_init q = q\<lparr>front := 0, rear := - 1, count := 0\<rparr>"

definition queue_enqueue :: "CloudQueue \<Rightarrow> CloudData \<Rightarrow> bool \<times> CloudQueue" where
  "queue_enqueue q d =
     (if count q \<ge> QUEUE_SIZE then (False, q)
      else
        (let q1 = q\<lparr>rear := (rear q + 1) smod QUEUE_SIZE\<rparr>;
             q2 = q1\<lparr>data := (data q1)[nat (rear q1) := d]\<rparr>;
             q3 = q2\<lparr>count := count q2 + 1\<rparr>
         in (True, q3)))"

text \<open>\<^verbatim>\<open>queue_dequeue\<close> writes \<^verbatim>\<open>*data\<close> only when it returns true: the result is
  \<open>Some\<close> of the record then, and \<open>None\<close> when it returns false.\<close>

definition queue_dequeue :: "CloudQueue \<Rightarrow> CloudData option \<times> CloudQueue" where
  "queue_dequeue q =
     (if count q = 0 then (None, q)
      else
        (let d = data q ! nat (front q);
             q1 = q\<lparr>front := (front q + 1) smod QUEUE_SIZE\<rparr>;
             q2 = q1\<lparr>count := count q1 - 1\<rparr>
         in (Some d, q2)))"

text \<open>The queue that \<^verbatim>\<open>main\<close> hands to the threads.\<close>

definition queue_start :: CloudQueue where
  "queue_start = queue_init cloud_queue0"

text \<open>The records a queue holds, oldest first: \<open>count\<close> cells from \<open>front\<close> on, around
  the end of the array.\<close>

definition queue_list :: "CloudQueue \<Rightarrow> CloudData list" where
  "queue_list q =
     map (\<lambda>i. data q ! nat ((front q + int i) mod QUEUE_SIZE)) [0..<nat (count q)]"

text \<open>What the two operations keep true of the queue.\<close>

definition queue_inv :: "CloudQueue \<Rightarrow> bool" where
  "queue_inv q \<longleftrightarrow>
     int (length (data q)) = QUEUE_SIZE \<and>
     0 \<le> front q \<and> front q < QUEUE_SIZE \<and>
     - 1 \<le> rear q \<and> rear q < QUEUE_SIZE \<and>
     0 \<le> count q \<and> count q \<le> QUEUE_SIZE \<and>
     (rear q + 1) mod QUEUE_SIZE = (front q + count q) mod QUEUE_SIZE"

text \<open>A sequence of calls on the queue, and what it leaves: the queue, the records
  that \<^verbatim>\<open>queue_enqueue\<close> accepted, and the records that \<^verbatim>\<open>queue_dequeue\<close> returned,
  each in the order of the calls.\<close>

datatype queue_call = Enqueue CloudData | Dequeue

record queue_run =
  queue :: CloudQueue
  accepted :: "CloudData list"
  removed :: "CloudData list"

definition queue_call_step :: "queue_run \<Rightarrow> queue_call \<Rightarrow> queue_run" where
  "queue_call_step r c =
     (case c of
        Enqueue d \<Rightarrow>
          (let (ok, q') = queue_enqueue (queue r) d
           in r\<lparr>queue := q', accepted := (if ok then accepted r @ [d] else accepted r)\<rparr>)
      | Dequeue \<Rightarrow>
          (case queue_dequeue (queue r) of
             (None, q') \<Rightarrow> r\<lparr>queue := q'\<rparr>
           | (Some d, q') \<Rightarrow> r\<lparr>queue := q', removed := removed r @ [d]\<rparr>))"

fun queue_calls :: "queue_run \<Rightarrow> queue_call list \<Rightarrow> queue_run" where
  "queue_calls r [] = r"
| "queue_calls r (c # cs) = queue_calls (queue_call_step r c) cs"

definition run_start :: queue_run where
  "run_start = \<lparr>queue = queue_start, accepted = [], removed = []\<rparr>"

subsection \<open>The sensor source\<close>

text \<open>The three \<^verbatim>\<open>static\<close> variables of \<^verbatim>\<open>read_sensor_data\<close>, with their initial
  values.\<close>

record SensorStatics =
  static_battery :: real
  static_speed :: real
  static_temp :: real

definition sensor_statics0 :: SensorStatics where
  "sensor_statics0 = \<lparr>static_battery = 100, static_speed = 0, static_temp = 25\<rparr>"

text \<open>The expression \<^verbatim>\<open>((float)rand() / RAND_MAX - 0.5) * k\<close>, for the value \<open>r\<close> of
  \<^verbatim>\<open>rand()\<close>: a division in \<^verbatim>\<open>float\<close>, the rest in \<^verbatim>\<open>double\<close>.\<close>

definition rand_step :: "platform \<Rightarrow> int \<Rightarrow> real \<Rightarrow> real" where
  "rand_step fp r k =
     to_double fp
       (to_double fp
          (to_float fp (to_float fp (real_of_int r) / to_float fp (real_of_int (RAND_MAX fp)))
             - 0.5) * k)"

definition read_sensor_data ::
  "platform \<Rightarrow> SensorStatics \<Rightarrow> int \<Rightarrow> int \<Rightarrow> SensorData \<times> SensorStatics" where
  "read_sensor_data fp st rand1 rand2 =
     (let battery1 = to_float fp (to_double fp (static_battery st - to_double fp 0.001));
          battery2 = (if battery1 < 0 then 100 else battery1);
          speed1 = to_float fp (to_double fp (static_speed st + rand_step fp rand1 5));
          speed2 = (if speed1 < 0 then 0 else speed1);
          speed3 = (if speed2 > 80 then 80 else speed2);
          temp1 = to_float fp (to_double fp (static_temp st + rand_step fp rand2 2));
          temp2 = (if temp1 < 20 then 20 else temp1);
          temp3 = (if temp2 > 75 then 75 else temp2)
      in (\<lparr>battery = battery2, speed = speed3, temp = temp3\<rparr>,
          \<lparr>static_battery = battery2, static_speed = speed3, static_temp = temp3\<rparr>))"

subsection \<open>The sensor thread\<close>

text \<open>\<^verbatim>\<open>float time_hours = 0.01 / 3600.0;\<close> is a division in \<^verbatim>\<open>double\<close>, stored in a
  \<^verbatim>\<open>float\<close>.\<close>

definition time_hours :: "platform \<Rightarrow> real" where
  "time_hours fp = to_float fp (to_double fp (to_double fp 0.01 / 3600))"

text \<open>The critical section of \<^verbatim>\<open>fast_loop_thread\<close>; \<open>reading\<close> is its local
  \<^verbatim>\<open>sensor\<close>.\<close>

definition fast_loop_update :: "platform \<Rightarrow> VehicleState \<Rightarrow> SensorData \<Rightarrow> VehicleState" where
  "fast_loop_update fp vs reading =
     (let vs1 = vs\<lparr>current_sensor := reading\<rparr>;
          vs2 = vs1\<lparr>total_distance :=
                  to_float fp (total_distance vs1 + to_float fp (speed reading * time_hours fp))\<rparr>;
          vs3 = (if speed reading > VehicleState.top_speed vs2
                 then vs2\<lparr>VehicleState.top_speed := speed reading\<rparr> else vs2)
      in vs3\<lparr>is_moving := (speed reading > 0.5)\<rparr>)"

text \<open>One iteration of the loop, with the two values of \<^verbatim>\<open>rand()\<close> it draws; then it
  sleeps for 10 ms.\<close>

definition fast_loop_iter ::
  "platform \<Rightarrow> SensorStatics \<times> VehicleState \<Rightarrow> int \<times> int \<Rightarrow> SensorStatics \<times> VehicleState" where
  "fast_loop_iter fp s r =
     (let (reading, st') = read_sensor_data fp (fst s) (fst r) (snd r)
      in (st', fast_loop_update fp (snd s) reading))"

text \<open>The loop over a sequence of readings, and over a sequence of draws.\<close>

fun fast_loop_updates :: "platform \<Rightarrow> VehicleState \<Rightarrow> SensorData list \<Rightarrow> VehicleState" where
  "fast_loop_updates fp vs [] = vs"
| "fast_loop_updates fp vs (reading # rs) =
     fast_loop_updates fp (fast_loop_update fp vs reading) rs"

fun fast_loop_run ::
  "platform \<Rightarrow> SensorStatics \<times> VehicleState \<Rightarrow> (int \<times> int) list \<Rightarrow> SensorStatics \<times> VehicleState" where
  "fast_loop_run fp s [] = s"
| "fast_loop_run fp s (r # rs) = fast_loop_run fp (fast_loop_iter fp s r) rs"

subsection \<open>The logic thread\<close>

text \<open>The local variables of \<^verbatim>\<open>slow_loop_thread\<close> that live across iterations; the
  thread starts at clock value \<open>t0\<close>.\<close>

record SlowLocals =
  last_send_time :: int
  last_battery_sent :: real

definition slow_loop_start :: "int \<Rightarrow> SlowLocals" where
  "slow_loop_start t0 = \<lparr>last_send_time = t0, last_battery_sent = 100\<rparr>"

text \<open>The critical section of one iteration, at clock value \<open>now\<close>: the record it
  builds, the flag \<^verbatim>\<open>should_send\<close>, the locals and the lines printed, changed by
  the three rules in turn.\<close>

record slow_eval =
  new_locals :: SlowLocals
  should_send :: bool
  cloud_data :: CloudData
  eval_events :: "event list"

definition slow_loop_eval :: "platform \<Rightarrow> SlowLocals \<Rightarrow> VehicleState \<Rightarrow> int \<Rightarrow> slow_eval" where
  "slow_loop_eval fp loc vs now =
     (let current = current_sensor vs;
          moving = is_moving vs;
          battery_change = \<bar>to_float fp (battery current - last_battery_sent loc)\<bar>;
          temp_critical = (temp current > 70);
          cd = \<lparr>sensor = current, distance = total_distance vs,
                top_speed = VehicleState.top_speed vs, timestamp = now\<rparr>;
          e0 = \<lparr>new_locals = loc, should_send = False, cloud_data = cd, eval_events = []\<rparr>;
          e1 = (if \<not> moving \<and> battery_change > 0.5
                then e0\<lparr>eval_events := eval_events e0 @ [Printed ''[Logic] Battery changed while idle''],
                        should_send := True,
                        new_locals := (new_locals e0)\<lparr>last_battery_sent := battery current\<rparr>\<rparr>
                else e0);
          e2 = (if moving \<and> timestamp (cloud_data e1) - last_send_time (new_locals e1) \<ge> 1000
                then e1\<lparr>eval_events := eval_events e1 @ [Printed ''[Logic] Periodic update (moving)''],
                        should_send := True,
                        new_locals := (new_locals e1)\<lparr>last_send_time := timestamp (cloud_data e1)\<rparr>\<rparr>
                else e1);
          e3 = (if temp_critical
                then e2\<lparr>eval_events := eval_events e2 @ [Printed ''[Logic] CRITICAL TEMP ALERT!''],
                        should_send := True\<rparr>
                else e2)
      in e3)"

text \<open>One iteration: the critical section, the call of \<^verbatim>\<open>queue_enqueue\<close> when
  \<^verbatim>\<open>should_send\<close> is set, and the sleep of 100 ms.\<close>

record slow_iter =
  locals_after :: SlowLocals
  queue_after :: CloudQueue
  events :: "event list"

definition slow_loop_iter ::
  "platform \<Rightarrow> VehicleState \<Rightarrow> int \<Rightarrow> SlowLocals \<Rightarrow> CloudQueue \<Rightarrow> slow_iter" where
  "slow_loop_iter fp vs now loc q =
     (let e = slow_loop_eval fp loc vs now
      in if should_send e
         then
           (let (ok, q') = queue_enqueue q (cloud_data e)
            in \<lparr>locals_after = new_locals e, queue_after = q',
                events = eval_events e
                  @ (if \<not> ok then [Printed ''[Logic] Warning: Queue full!''] else [])
                  @ [Slept_micros 100000]\<rparr>)
         else \<lparr>locals_after = new_locals e, queue_after = q,
                events = eval_events e @ [Slept_micros 100000]\<rparr>)"

text \<open>The conditions of the three rules, on the locals and the state an iteration
  starts from, and the record it builds.\<close>

definition rule_idle_battery :: "platform \<Rightarrow> SlowLocals \<Rightarrow> VehicleState \<Rightarrow> bool" where
  "rule_idle_battery fp loc vs \<longleftrightarrow>
     \<not> is_moving vs \<and> \<bar>to_float fp (battery (current_sensor vs) - last_battery_sent loc)\<bar> > 0.5"

definition rule_periodic :: "SlowLocals \<Rightarrow> VehicleState \<Rightarrow> int \<Rightarrow> bool" where
  "rule_periodic loc vs now \<longleftrightarrow> is_moving vs \<and> now - last_send_time loc \<ge> 1000"

definition rule_critical_temp :: "VehicleState \<Rightarrow> bool" where
  "rule_critical_temp vs \<longleftrightarrow> temp (current_sensor vs) > 70"

definition report_of :: "VehicleState \<Rightarrow> int \<Rightarrow> CloudData" where
  "report_of vs now =
     \<lparr>sensor = current_sensor vs, distance = total_distance vs,
      top_speed = VehicleState.top_speed vs, timestamp = now\<rparr>"

subsection \<open>The sender thread\<close>

text \<open>\<^verbatim>\<open>send_to_cloud\<close>, with the two values of \<^verbatim>\<open>rand()\<close> it draws: the first sets
  the delay, the second the outcome.\<close>

definition send_to_cloud :: "CloudData \<Rightarrow> int \<Rightarrow> int \<Rightarrow> CloudStatus \<times> event list" where
  "send_to_cloud d rand1 rand2 =
     (let delay = 1 + rand1 smod 10
      in if rand2 smod 10 < 9
         then (SUCCESS,
               [Slept_seconds delay,
                Printed_sent (battery (sensor d)) (speed (sensor d)) (temp (sensor d)) (distance d)])
         else (FAILURE, [Slept_seconds delay, Printed ''[CLOUD] Send failed'']))"

text \<open>The calls of \<^verbatim>\<open>queue_enqueue\<close> of another thread, one after the other.\<close>

fun enqueue_all :: "CloudQueue \<Rightarrow> CloudData list \<Rightarrow> CloudQueue" where
  "enqueue_all q [] = q"
| "enqueue_all q (d # ds) = enqueue_all (snd (queue_enqueue q d)) ds"

text \<open>
  One iteration of \<^verbatim>\<open>cloud_sender_thread\<close>. It holds the queue's mutex twice, in
  \<^verbatim>\<open>queue_dequeue\<close> and, after a failed send, in \<^verbatim>\<open>queue_enqueue\<close>; the send in
  between takes seconds, in which the logic thread goes on enqueueing. \<open>arrivals\<close>
  are the records it passes to \<^verbatim>\<open>queue_enqueue\<close> in that time (none, when the
  iteration is taken alone).
\<close>

definition cloud_sender_iter ::
  "int \<Rightarrow> int \<Rightarrow> CloudData list \<Rightarrow> CloudQueue \<Rightarrow> CloudQueue \<times> event list" where
  "cloud_sender_iter rand1 rand2 arrivals q =
     (case queue_dequeue q of
        (None, q1) \<Rightarrow> (q1, [Slept_micros 100000])
      | (Some d, q1) \<Rightarrow>
          (let (status, ev) = send_to_cloud d rand1 rand2;
               q2 = enqueue_all q1 arrivals
           in if status = FAILURE
              then (snd (queue_enqueue q2 d), ev @ [Printed ''[Cloud] Retrying...''])
              else (q2, ev)))"

text \<open>The loop, one iteration for each triple of draws and arrivals.\<close>

fun cloud_sender_loop ::
  "CloudQueue \<Rightarrow> (int \<times> int \<times> CloudData list) list \<Rightarrow> CloudQueue \<times> event list" where
  "cloud_sender_loop q [] = (q, [])"
| "cloud_sender_loop q ((rand1, rand2, arrivals) # rest) =
     (let (q1, ev1) = cloud_sender_iter rand1 rand2 arrivals q;
          (q2, ev2) = cloud_sender_loop q1 rest
      in (q2, ev1 @ ev2))"

subsection \<open>The two threads on the shared state, statement by statement\<close>

text \<open>
  The sensor thread and the logic thread with \<^verbatim>\<open>state_mutex\<close>, one statement at a
  time. Each thread is at one of its statements: the sensor thread at
  \<^verbatim>\<open>read_sensor_data\<close>, at \<^verbatim>\<open>pthread_mutex_lock\<close>, at one of its four writes to
  \<^verbatim>\<open>vehicle_state\<close> or at \<^verbatim>\<open>pthread_mutex_unlock\<close>; the logic thread at
  \<^verbatim>\<open>pthread_mutex_lock\<close>, at one of its four reads of \<^verbatim>\<open>vehicle_state\<close> or at
  \<^verbatim>\<open>pthread_mutex_unlock\<close> (what it computes in between involves its locals only).
  Every access to \<^verbatim>\<open>vehicle_state\<close> is made under the mutex, so the program has no
  data race and its executions are the interleavings of these statements.
\<close>

datatype thread = Sensor_thread | Logic_thread

datatype fast_pc = F_read | F_lock | F_current | F_distance | F_top_speed | F_moving | F_unlock

datatype slow_pc = S_lock | S_current | S_moving | S_distance | S_top_speed | S_unlock

text \<open>
  The shared state, the owner of the mutex, and for each thread its place and its
  locals: \<^verbatim>\<open>sensor\<close> of the sensor thread, and what the logic thread has read into
  \<^verbatim>\<open>current\<close>, \<^verbatim>\<open>is_moving\<close>, \<^verbatim>\<open>cloud_data.distance\<close> and \<^verbatim>\<open>cloud_data.top_speed\<close>.
  \<open>updates_done\<close> is not a variable of the program: it records the readings whose
  update is complete, the mutex released.
\<close>

record threads =
  shared :: VehicleState
  state_mutex :: "thread option"
  fast_at :: fast_pc
  fast_sensor :: SensorData
  slow_at :: slow_pc
  seen_current :: SensorData
  seen_moving :: bool
  seen_distance :: real
  seen_top_speed :: real
  updates_done :: "SensorData list"

text \<open>
  A turn executes the next statement of one thread; the turn of the sensor thread
  carries the reading that \<^verbatim>\<open>read_sensor_data\<close> returns if that is the statement.
  \<^verbatim>\<open>pthread_mutex_lock\<close> takes the mutex when it is free; when it is not, the thread
  stays where it is.
\<close>

datatype turn = Sensor_turn SensorData | Logic_turn

definition fast_step :: "platform \<Rightarrow> SensorData \<Rightarrow> threads \<Rightarrow> threads" where
  "fast_step fp reading c =
     (case fast_at c of
        F_read \<Rightarrow> c\<lparr>fast_sensor := reading, fast_at := F_lock\<rparr>
      | F_lock \<Rightarrow>
          (if state_mutex c = None
           then c\<lparr>state_mutex := Some Sensor_thread, fast_at := F_current\<rparr> else c)
      | F_current \<Rightarrow>
          c\<lparr>shared := (shared c)\<lparr>current_sensor := fast_sensor c\<rparr>, fast_at := F_distance\<rparr>
      | F_distance \<Rightarrow>
          c\<lparr>shared := (shared c)\<lparr>total_distance :=
                 to_float fp (total_distance (shared c)
                   + to_float fp (speed (fast_sensor c) * time_hours fp))\<rparr>,
            fast_at := F_top_speed\<rparr>
      | F_top_speed \<Rightarrow>
          c\<lparr>shared :=
              (if speed (fast_sensor c) > VehicleState.top_speed (shared c)
               then (shared c)\<lparr>VehicleState.top_speed := speed (fast_sensor c)\<rparr> else shared c),
            fast_at := F_moving\<rparr>
      | F_moving \<Rightarrow>
          c\<lparr>shared := (shared c)\<lparr>is_moving := (speed (fast_sensor c) > 0.5)\<rparr>,
            fast_at := F_unlock\<rparr>
      | F_unlock \<Rightarrow>
          c\<lparr>state_mutex := None, fast_at := F_read,
            updates_done := updates_done c @ [fast_sensor c]\<rparr>)"

definition slow_step :: "threads \<Rightarrow> threads" where
  "slow_step c =
     (case slow_at c of
        S_lock \<Rightarrow>
          (if state_mutex c = None
           then c\<lparr>state_mutex := Some Logic_thread, slow_at := S_current\<rparr> else c)
      | S_current \<Rightarrow> c\<lparr>seen_current := current_sensor (shared c), slow_at := S_moving\<rparr>
      | S_moving \<Rightarrow> c\<lparr>seen_moving := is_moving (shared c), slow_at := S_distance\<rparr>
      | S_distance \<Rightarrow> c\<lparr>seen_distance := total_distance (shared c), slow_at := S_top_speed\<rparr>
      | S_top_speed \<Rightarrow>
          c\<lparr>seen_top_speed := VehicleState.top_speed (shared c), slow_at := S_unlock\<rparr>
      | S_unlock \<Rightarrow> c\<lparr>state_mutex := None, slow_at := S_lock\<rparr>)"

fun run_threads :: "platform \<Rightarrow> threads \<Rightarrow> turn list \<Rightarrow> threads" where
  "run_threads fp c [] = c"
| "run_threads fp c (Sensor_turn reading # ts) = run_threads fp (fast_step fp reading c) ts"
| "run_threads fp c (Logic_turn # ts) = run_threads fp (slow_step c) ts"

definition threads_start :: threads where
  "threads_start =
     \<lparr>shared = vehicle_state0, state_mutex = None, fast_at = F_read, fast_sensor = zero_sensor,
      slow_at = S_lock, seen_current = zero_sensor, seen_moving = False, seen_distance = 0,
      seen_top_speed = 0, updates_done = []\<rparr>"

text \<open>The four values the logic thread reads, in a state and in its locals.\<close>

definition snapshot :: "VehicleState \<Rightarrow> SensorData \<times> bool \<times> real \<times> real" where
  "snapshot vs = (current_sensor vs, is_moving vs, total_distance vs, VehicleState.top_speed vs)"

definition seen :: "threads \<Rightarrow> SensorData \<times> bool \<times> real \<times> real" where
  "seen c = (seen_current c, seen_moving c, seen_distance c, seen_top_speed c)"

text \<open>
  What every execution keeps true. With the mutex free or held by the logic thread,
  the shared state is the state after the completed updates, and the logic thread
  has read from it; with the mutex held by the sensor thread, the logic thread
  waits, and the shared state lies between two updates.
\<close>

definition whole_updates :: "platform \<Rightarrow> threads \<Rightarrow> VehicleState" where
  "whole_updates fp c = fast_loop_updates fp vehicle_state0 (updates_done c)"

fun half_update :: "platform \<Rightarrow> fast_pc \<Rightarrow> VehicleState \<Rightarrow> SensorData \<Rightarrow> VehicleState" where
  "half_update fp F_distance vs r = vs\<lparr>current_sensor := r\<rparr>"
| "half_update fp F_top_speed vs r =
     vs\<lparr>current_sensor := r,
        total_distance := to_float fp (total_distance vs + to_float fp (speed r * time_hours fp))\<rparr>"
| "half_update fp F_moving vs r =
     vs\<lparr>current_sensor := r,
        total_distance := to_float fp (total_distance vs + to_float fp (speed r * time_hours fp)),
        VehicleState.top_speed := max (VehicleState.top_speed vs) (speed r)\<rparr>"
| "half_update fp F_unlock vs r = fast_loop_update fp vs r"
| "half_update fp pc vs r = vs"

definition threads_inv :: "platform \<Rightarrow> threads \<Rightarrow> bool" where
  "threads_inv fp c \<longleftrightarrow>
     (case state_mutex c of
        None \<Rightarrow>
          (fast_at c = F_read \<or> fast_at c = F_lock) \<and> slow_at c = S_lock
          \<and> shared c = whole_updates fp c
      | Some Sensor_thread \<Rightarrow>
          fast_at c \<noteq> F_read \<and> fast_at c \<noteq> F_lock \<and> slow_at c = S_lock
          \<and> shared c = half_update fp (fast_at c) (whole_updates fp c) (fast_sensor c)
      | Some Logic_thread \<Rightarrow>
          (fast_at c = F_read \<or> fast_at c = F_lock) \<and> slow_at c \<noteq> S_lock
          \<and> shared c = whole_updates fp c
          \<and> (slow_at c \<in> {S_moving, S_distance, S_top_speed, S_unlock}
                \<longrightarrow> seen_current c = current_sensor (shared c))
          \<and> (slow_at c \<in> {S_distance, S_top_speed, S_unlock}
                \<longrightarrow> seen_moving c = is_moving (shared c))
          \<and> (slow_at c \<in> {S_top_speed, S_unlock}
                \<longrightarrow> seen_distance c = total_distance (shared c))
          \<and> (slow_at c = S_unlock \<longrightarrow> seen_top_speed c = VehicleState.top_speed (shared c)))"

subsection \<open>Runs and test data\<close>

text \<open>What a sequence of calls keeps true: the queue is well formed, and the accepted
  records are the removed ones followed by the ones still queued.\<close>

definition run_inv :: "queue_run \<Rightarrow> bool" where
  "run_inv r \<longleftrightarrow> queue_inv (queue r) \<and> accepted r = removed r @ queue_list (queue r)"

text \<open>A thousand calls that fill the queue.\<close>

definition full_calls :: "queue_call list" where
  "full_calls = replicate 1000 (Enqueue zero_cloud_data)"

text \<open>Two readings.\<close>

definition sample1 :: SensorData where
  "sample1 = \<lparr>battery = 99.4, speed = 36, temp = 65\<rparr>"

definition sample2 :: SensorData where
  "sample2 = \<lparr>battery = 99.3, speed = 0.25, temp = 72\<rparr>"



text \<open>Three states of the vehicle: standing with a critical temperature, standing,
  and moving; and the full queue.\<close>

definition idle_hot_state :: VehicleState where
  "idle_hot_state = fast_loop_updates exact_platform vehicle_state0 [sample1, sample2]"

definition idle_state :: VehicleState where
  "idle_state = fast_loop_updates exact_platform vehicle_state0 [sample1, sample2\<lparr>temp := 65\<rparr>]"

definition moving_state :: VehicleState where
  "moving_state = fast_loop_updates exact_platform vehicle_state0 [sample1]"

definition full_queue :: CloudQueue where
  "full_queue = queue (queue_calls run_start full_calls)"

text \<open>A queue that holds one record.\<close>

definition one_queue :: CloudQueue where
  "one_queue = snd (queue_enqueue queue_start (report_of moving_state 5000))"

text \<open>Turns in which each thread finds the mutex taken by the other.\<close>

definition contended_turns :: "turn list" where
  "contended_turns =
     [Sensor_turn sample1, Sensor_turn sample1, Sensor_turn sample1, Logic_turn,
      Sensor_turn sample1, Logic_turn, Sensor_turn sample1, Sensor_turn sample1,
      Sensor_turn sample1, Logic_turn, Sensor_turn sample2, Logic_turn, Sensor_turn sample2,
      Logic_turn, Sensor_turn sample2, Logic_turn, Logic_turn]"

section \<open>The queue is a bounded FIFO\<close>

lemma queue_inv_bounds:
  "queue_inv q \<Longrightarrow>
     0 \<le> front q \<and> front q \<le> 999 \<and> - 1 \<le> rear q \<and> rear q \<le> 999 \<and>
     0 \<le> count q \<and> count q \<le> 1000 \<and> length (data q) = 1000"
  by (auto simp: queue_inv_def QUEUE_SIZE_def)

lemma queue_inv_start: "queue_inv queue_start"
  by (simp add: queue_inv_def queue_start_def queue_init_def cloud_queue0_def QUEUE_SIZE_def)

lemma queue_list_start: "queue_list queue_start = []"
  by (simp add: queue_list_def queue_start_def queue_init_def)

lemma length_queue_list: "length (queue_list q) = nat (count q)"
  by (simp add: queue_list_def)

lemma queue_enqueue_full:
  "QUEUE_SIZE \<le> count q \<Longrightarrow> queue_enqueue q d = (False, q)"
  by (simp add: queue_enqueue_def)

lemma queue_enqueue_ok:
  "count q < QUEUE_SIZE \<Longrightarrow> fst (queue_enqueue q d) = True"
  by (simp add: queue_enqueue_def Let_def)

lemma queue_enqueue_count:
  "count q < QUEUE_SIZE \<Longrightarrow> count (snd (queue_enqueue q d)) = count q + 1"
  by (simp add: queue_enqueue_def Let_def)

lemma queue_enqueue_inv:
  assumes "queue_inv q"
  shows "queue_inv (snd (queue_enqueue q d))"
proof (cases "count q < QUEUE_SIZE")
  case False
  with assms show ?thesis by (simp add: queue_enqueue_def)
next
  case True
  from assms have r: "0 \<le> rear q + 1" by (simp add: queue_inv_def)
  then have s: "(rear q + 1) smod QUEUE_SIZE = (rear q + 1) mod QUEUE_SIZE"
    by (simp add: smod_mod_positive QUEUE_SIZE_def)
  have m: "((rear q + 1) mod QUEUE_SIZE + 1) mod QUEUE_SIZE = (front q + (count q + 1)) mod QUEUE_SIZE"
    using assms by (metis queue_inv_def add.assoc mod_add_left_eq)
  from assms True s m show ?thesis
    by (simp add: queue_enqueue_def Let_def queue_inv_def QUEUE_SIZE_def)
qed

lemma queue_dequeue_inv:
  assumes "queue_inv q"
  shows "queue_inv (snd (queue_dequeue q))"
proof (cases "count q = 0")
  case True
  with assms show ?thesis by (simp add: queue_dequeue_def)
next
  case False
  from assms have r: "0 \<le> front q + 1" by (simp add: queue_inv_def)
  then have s: "(front q + 1) smod QUEUE_SIZE = (front q + 1) mod QUEUE_SIZE"
    by (simp add: smod_mod_positive QUEUE_SIZE_def)
  have "((front q + 1) mod QUEUE_SIZE + (count q - 1)) mod QUEUE_SIZE = (front q + count q) mod QUEUE_SIZE"
    by (simp add: mod_add_left_eq)
  with assms False s show ?thesis
    by (simp add: queue_dequeue_def Let_def queue_inv_def QUEUE_SIZE_def)
qed

lemma cell_distinct:
  assumes "i < n" "n < 1000"
  shows "nat ((f + int i) mod 1000) \<noteq> nat ((f + int n) mod 1000)"
proof
  assume "nat ((f + int i) mod 1000) = nat ((f + int n) mod 1000)"
  then have "(f + int i) mod 1000 = (f + int n) mod 1000"
    by (simp add: nat_eq_iff)
  then have "(1000::int) dvd (f + int n) - (f + int i)"
    by (metis mod_eq_dvd_iff)
  then have "(1000::int) dvd int n - int i" by simp
  moreover have "0 < int n - int i" "int n - int i < 1000" using assms by auto
  ultimately show False
    using zdvd_not_zless by blast
qed

lemma queue_enqueue_list:
  assumes "queue_inv q" "count q < QUEUE_SIZE"
  shows "queue_list (snd (queue_enqueue q d)) = queue_list q @ [d]"
proof -
  let ?n = "nat (count q)"
  from assms have r: "0 \<le> rear q + 1" by (simp add: queue_inv_def)
  then have s: "(rear q + 1) smod QUEUE_SIZE = (front q + count q) mod QUEUE_SIZE"
    using assms by (simp add: smod_mod_positive QUEUE_SIZE_def queue_inv_def)
  have c: "0 \<le> count q" "int ?n = count q" "?n < 1000" "length (data q) = 1000"
    using assms by (auto simp: queue_inv_def QUEUE_SIZE_def)
  have k: "nat ((front q + count q) mod 1000) < 1000"
    by (simp add: nat_less_iff)
  have old: "(data q)[nat ((front q + count q) mod 1000) := d] ! nat ((front q + int i) mod 1000)
        = data q ! nat ((front q + int i) mod 1000)" if "i < ?n" for i
  proof -
    have "nat ((front q + int i) mod 1000) \<noteq> nat ((front q + int ?n) mod 1000)"
      using that c(3) by (rule cell_distinct)
    then have "nat ((front q + count q) mod 1000) \<noteq> nat ((front q + int i) mod 1000)"
      using c(2) by simp
    then show ?thesis by (rule nth_list_update_neq)
  qed
  have new: "(data q)[nat ((front q + count q) mod 1000) := d] ! nat ((front q + int ?n) mod 1000) = d"
    using c k by simp
  have "nat (count q + 1) = Suc ?n" using c(1) by linarith
  then show ?thesis
    using assms(2) s old new c(2)
    by (simp add: queue_enqueue_def Let_def queue_list_def QUEUE_SIZE_def)
qed

lemma queue_dequeue_empty:
  "count q = 0 \<Longrightarrow> queue_dequeue q = (None, q)"
  by (simp add: queue_dequeue_def)

lemma queue_dequeue_list:
  assumes "queue_inv q" "count q \<noteq> 0"
  shows "fst (queue_dequeue q) = Some (hd (queue_list q))"
    and "queue_list (snd (queue_dequeue q)) = tl (queue_list q)"
proof -
  from assms have c: "0 < count q" "0 \<le> front q" "front q < 1000"
    by (auto simp: queue_inv_def QUEUE_SIZE_def)
  then obtain n where n: "nat (count q) = Suc n" by (metis Suc_pred' zero_less_nat_eq)
  have s: "(front q + 1) smod QUEUE_SIZE = (front q + 1) mod 1000"
    using c by (simp add: smod_mod_positive QUEUE_SIZE_def)
  have f: "front q mod 1000 = front q" using c by simp
  have up: "[0..<Suc n] = 0 # map Suc [0..<n]"
    by (simp add: upt_conv_Cons map_Suc_upt del: upt_Suc)
  show "fst (queue_dequeue q) = Some (hd (queue_list q))"
    using assms n f by (simp add: queue_dequeue_def Let_def queue_list_def QUEUE_SIZE_def up del: upt_Suc)
  have n': "nat (count q - 1) = n" using n by simp
  have "((front q + 1) mod 1000 + int i) mod 1000 = (front q + int (Suc i)) mod 1000" for i
  proof -
    have "((front q + 1) mod 1000 + int i) mod 1000 = (front q + 1 + int i) mod 1000"
      by (rule mod_add_left_eq)
    then show ?thesis by (simp add: add.assoc)
  qed
  then show "queue_list (snd (queue_dequeue q)) = tl (queue_list q)"
    using assms n n' s
    by (simp add: queue_dequeue_def Let_def queue_list_def QUEUE_SIZE_def up comp_def del: upt_Suc)
qed

lemma run_inv_start: "run_inv run_start"
  by (simp add: run_inv_def run_start_def queue_inv_start queue_list_start)

lemma run_inv_step:
  assumes "run_inv r"
  shows "run_inv (queue_call_step r c)"
proof (cases c)
  case (Enqueue d)
  show ?thesis
  proof (cases "count (queue r) < QUEUE_SIZE")
    case True
    with assms Enqueue queue_enqueue_inv [of "queue r" d] queue_enqueue_list [of "queue r" d]
      queue_enqueue_ok [of "queue r" d]
    show ?thesis
      by (simp add: run_inv_def queue_call_step_def split_beta)
  next
    case False
    with assms Enqueue show ?thesis
      by (simp add: run_inv_def queue_call_step_def queue_enqueue_full)
  qed
next
  case Dequeue
  show ?thesis
  proof (cases "count (queue r) = 0")
    case True
    with assms Dequeue show ?thesis
      by (simp add: run_inv_def queue_call_step_def queue_dequeue_empty)
  next
    case False
    from assms have i: "queue_inv (queue r)" by (simp add: run_inv_def)
    from i False have "queue_list (queue r) \<noteq> []"
      using length_queue_list [of "queue r"] by (auto simp: queue_inv_def)
    then have l: "queue_list (queue r) = hd (queue_list (queue r)) # tl (queue_list (queue r))"
      by simp
    obtain x q' where x: "queue_dequeue (queue r) = (x, q')" by (cases "queue_dequeue (queue r)")
    with queue_dequeue_list [OF i False] queue_dequeue_inv [OF i]
    have "x = Some (hd (queue_list (queue r)))" "queue_list q' = tl (queue_list (queue r))" "queue_inv q'"
      by simp_all
    with assms Dequeue x l show ?thesis
      by (simp add: run_inv_def queue_call_step_def)
  qed
qed

lemma run_inv_calls: "run_inv r \<Longrightarrow> run_inv (queue_calls r cs)"
  by (induction cs arbitrary: r) (simp_all add: run_inv_step)

lemma queue_dequeue_head:
  assumes "queue_inv q"
  shows "fst (queue_dequeue q) = (case queue_list q of [] \<Rightarrow> None | d # _ \<Rightarrow> Some d)"
proof (cases "count q = 0")
  case True
  then show ?thesis by (simp add: queue_dequeue_empty queue_list_def)
next
  case False
  with assms have "queue_list q \<noteq> []"
    using length_queue_list [of q] by (auto simp: queue_inv_def)
  with queue_dequeue_list(1) [OF assms False] show ?thesis
    by (cases "queue_list q") simp_all
qed

lemma enqueue_replicate_count:
  "queue_inv (queue r) \<Longrightarrow> count (queue r) + int n \<le> QUEUE_SIZE \<Longrightarrow>
     count (queue (queue_calls r (replicate n (Enqueue d)))) = count (queue r) + int n"
proof (induction n arbitrary: r)
  case 0
  then show ?case by simp
next
  case (Suc n)
  let ?r = "queue_call_step r (Enqueue d)"
  from Suc.prems have lt: "count (queue r) < QUEUE_SIZE" by simp
  have q: "queue ?r = snd (queue_enqueue (queue r) d)"
    by (simp add: queue_call_step_def split_beta)
  have i: "queue_inv (queue ?r)" using Suc.prems(1) q by (simp add: queue_enqueue_inv)
  have c: "count (queue ?r) = count (queue r) + 1"
    using q lt by (simp add: queue_enqueue_count)
  have b: "count (queue ?r) + int n \<le> QUEUE_SIZE" using c Suc.prems(2) by simp
  have "count (queue (queue_calls ?r (replicate n (Enqueue d)))) = count (queue ?r) + int n"
    using i b by (rule Suc.IH)
  with c show ?case by simp
qed

text \<open>
  Claim C1. After any sequence of calls of \<^verbatim>\<open>queue_enqueue\<close> and \<^verbatim>\<open>queue_dequeue\<close> on
  the initialised queue, \<open>count\<close> is at most \<open>QUEUE_SIZE\<close>, which is 1000 (the sequence
  is arbitrary, so this holds after each of its calls). And \<^verbatim>\<open>queue_enqueue\<close> on a
  queue whose \<open>count\<close> equals the capacity returns false and returns the queue as it
  was: the array, \<open>front\<close>, \<open>rear\<close> and \<open>count\<close>.
\<close>

theorem queue_count_bounded:
  "count (queue (queue_calls run_start cs)) \<le> QUEUE_SIZE \<and>
   (count q = QUEUE_SIZE \<longrightarrow> queue_enqueue q d = (False, q))"
proof
  have "run_inv (queue_calls run_start cs)"
    using run_inv_start by (rule run_inv_calls)
  then show "count (queue (queue_calls run_start cs)) \<le> QUEUE_SIZE"
    by (simp add: run_inv_def queue_inv_def)
  show "count q = QUEUE_SIZE \<longrightarrow> queue_enqueue q d = (False, q)"
    by (simp add: queue_enqueue_full)
qed

text \<open>The queue after a thousand accepted records is full, and rejects the next.\<close>

theorem queue_count_bounded_witness:
  "count (queue (queue_calls run_start full_calls)) = QUEUE_SIZE \<and>
   queue_enqueue (queue (queue_calls run_start full_calls)) zero_cloud_data
     = (False, queue (queue_calls run_start full_calls)) \<and>
   count (queue (queue_calls run_start (full_calls @ [Enqueue zero_cloud_data]))) \<le> QUEUE_SIZE"
proof -
  have c: "count (queue (queue_calls run_start full_calls)) = QUEUE_SIZE"
    using enqueue_replicate_count [of run_start 1000 zero_cloud_data] queue_inv_start
    by (simp add: full_calls_def run_start_def queue_start_def queue_init_def QUEUE_SIZE_def)
  with queue_count_bounded
    [of "full_calls @ [Enqueue zero_cloud_data]" "queue (queue_calls run_start full_calls)" zero_cloud_data]
  show ?thesis by simp
qed

text \<open>
  Claim C2. After any sequence of calls of \<^verbatim>\<open>queue_enqueue\<close> and \<^verbatim>\<open>queue_dequeue\<close> on
  the initialised queue, the records that \<^verbatim>\<open>queue_enqueue\<close> accepted are, in order, the
  records that \<^verbatim>\<open>queue_dequeue\<close> has returned followed by the records still queued: the
  records come out in the order in which they went in. The next \<^verbatim>\<open>queue_dequeue\<close>
  returns the oldest record still queued, and nothing when none is.
\<close>

theorem queue_fifo:
  "accepted (queue_calls run_start cs)
     = removed (queue_calls run_start cs) @ queue_list (queue (queue_calls run_start cs)) \<and>
   fst (queue_dequeue (queue (queue_calls run_start cs)))
     = (case queue_list (queue (queue_calls run_start cs)) of [] \<Rightarrow> None | d # _ \<Rightarrow> Some d)"
proof -
  have "run_inv (queue_calls run_start cs)"
    using run_inv_start by (rule run_inv_calls)
  then show ?thesis
    by (simp add: run_inv_def queue_dequeue_head)
qed

section \<open>The shared vehicle state\<close>

lemma time_hours_exact: "time_hours exact_platform = 0.01 / 3600"
  by (simp add: time_hours_def exact_platform_def)

lemma time_hours_fine: "time_hours fine_platform = 2982 / 1073741824"
  by (simp add: time_hours_def fine_platform_def)










lemma rounding_grid:
  assumes "0 < (k::real)"
  shows "rounding (\<lambda>x. real_of_int \<lfloor>x * k\<rfloor> / k)"
proof -
  have "mono (\<lambda>x. real_of_int \<lfloor>x * k\<rfloor> / k)"
  proof (rule monoI)
    fix x y :: real
    assume "x \<le> y"
    then have "x * k \<le> y * k" using assms by simp
    then have "\<lfloor>x * k\<rfloor> \<le> \<lfloor>y * k\<rfloor>" by (rule floor_mono)
    then show "real_of_int \<lfloor>x * k\<rfloor> / k \<le> real_of_int \<lfloor>y * k\<rfloor> / k"
      using assms by (simp add: divide_right_mono)
  qed
  moreover have "real_of_int \<lfloor>real_of_int \<lfloor>x * k\<rfloor> / k * k\<rfloor> / k = real_of_int \<lfloor>x * k\<rfloor> / k" for x
    using assms by simp
  ultimately show ?thesis by (simp add: rounding_def)
qed

lemma rounding_fine: "rounding (to_float fine_platform)" "rounding (to_double fine_platform)"
  using rounding_grid [of 1073741824] rounding_grid [of 1099511627776]
  by (simp_all add: fine_platform_def)

lemma rounding_exact: "rounding (to_float exact_platform)" "rounding (to_double exact_platform)"
  by (simp_all add: rounding_def exact_platform_def mono_def)

lemma time_hours_nonneg:
  assumes "rounding (to_float fp)" "rounding (to_double fp)"
  shows "0 \<le> time_hours fp"
proof -
  have f: "0 \<le> to_float fp x" if "0 \<le> x" for x
    using assms(1) that monoD [of "to_float fp" 0 x] by (simp add: rounding_def)
  have d: "0 \<le> to_double fp x" if "0 \<le> x" for x
    using assms(2) that monoD [of "to_double fp" 0 x] by (simp add: rounding_def)
  have "0 \<le> to_double fp 0.01" by (rule d) simp
  then have "0 \<le> to_double fp 0.01 / 3600" by simp
  then show ?thesis unfolding time_hours_def by (intro f d)
qed

lemma fast_loop_update_distance_mono:
  assumes "rounding (to_float fp)" "rounding (to_double fp)"
    and "to_float fp (total_distance vs) = total_distance vs" "0 \<le> speed r"
  shows "total_distance vs \<le> total_distance (fast_loop_update fp vs r)"
    and "to_float fp (total_distance (fast_loop_update fp vs r)) = total_distance (fast_loop_update fp vs r)"
proof -
  have m: "mono (to_float fp)" and z: "to_float fp 0 = 0" and i: "\<And>x. to_float fp (to_float fp x) = to_float fp x"
    using assms(1) by (simp_all add: rounding_def)
  have "0 \<le> speed r * time_hours fp"
    using assms(4) time_hours_nonneg [OF assms(1,2)] by simp
  then have "to_float fp 0 \<le> to_float fp (speed r * time_hours fp)"
    using m by (rule monoD [rotated])
  then have "total_distance vs \<le> total_distance vs + to_float fp (speed r * time_hours fp)"
    using z by simp
  then have "to_float fp (total_distance vs)
      \<le> to_float fp (total_distance vs + to_float fp (speed r * time_hours fp))"
    using m by (rule monoD [rotated])
  then show "total_distance vs \<le> total_distance (fast_loop_update fp vs r)"
    using assms(3) by (simp add: fast_loop_update_def Let_def)
  show "to_float fp (total_distance (fast_loop_update fp vs r)) = total_distance (fast_loop_update fp vs r)"
    using i by (simp add: fast_loop_update_def Let_def)
qed

lemma fast_loop_update_top_speed_mono:
  "VehicleState.top_speed vs \<le> VehicleState.top_speed (fast_loop_update fp vs r)"
  by (simp add: fast_loop_update_def Let_def)

lemma fast_loop_updates_append:
  "fast_loop_updates fp vs (rs @ rs') = fast_loop_updates fp (fast_loop_updates fp vs rs) rs'"
  by (induction rs arbitrary: vs) simp_all

lemma fast_loop_updates_rounded:
  assumes "rounding (to_float fp)" "rounding (to_double fp)"
  shows "to_float fp (total_distance vs) = total_distance vs \<Longrightarrow> \<forall>r\<in>set rs. 0 \<le> speed r \<Longrightarrow>
    to_float fp (total_distance (fast_loop_updates fp vs rs)) = total_distance (fast_loop_updates fp vs rs)"
proof (induction rs arbitrary: vs)
  case Nil
  then show ?case by simp
next
  case (Cons r rs)
  from Cons.prems have "0 \<le> speed r" by simp
  with assms Cons.prems(1)
  have "to_float fp (total_distance (fast_loop_update fp vs r)) = total_distance (fast_loop_update fp vs r)"
    by (rule fast_loop_update_distance_mono(2))
  moreover have "\<forall>r\<in>set rs. 0 \<le> speed r" using Cons.prems(2) by simp
  ultimately show ?case using Cons.IH by simp
qed

lemma fast_loop_updates_mono:
  assumes "rounding (to_float fp)" "rounding (to_double fp)"
  shows "to_float fp (total_distance vs) = total_distance vs \<Longrightarrow> \<forall>r\<in>set rs. 0 \<le> speed r \<Longrightarrow>
    total_distance vs \<le> total_distance (fast_loop_updates fp vs rs)"
proof (induction rs arbitrary: vs)
  case Nil
  then show ?case by simp
next
  case (Cons r rs)
  from Cons.prems have s: "0 \<le> speed r" by simp
  have a: "total_distance vs \<le> total_distance (fast_loop_update fp vs r)"
    using assms Cons.prems(1) s by (rule fast_loop_update_distance_mono(1))
  have b: "to_float fp (total_distance (fast_loop_update fp vs r)) = total_distance (fast_loop_update fp vs r)"
    using assms Cons.prems(1) s by (rule fast_loop_update_distance_mono(2))
  have "\<forall>r\<in>set rs. 0 \<le> speed r" using Cons.prems(2) by simp
  with b have "total_distance (fast_loop_update fp vs r)
      \<le> total_distance (fast_loop_updates fp (fast_loop_update fp vs r) rs)"
    by (rule Cons.IH)
  with a show ?case by simp
qed

lemma fast_loop_updates_top_speed_mono:
  "VehicleState.top_speed vs \<le> VehicleState.top_speed (fast_loop_updates fp vs rs)"
proof (induction rs arbitrary: vs)
  case Nil
  then show ?case by simp
next
  case (Cons r rs)
  have "VehicleState.top_speed vs \<le> VehicleState.top_speed (fast_loop_update fp vs r)"
    by (rule fast_loop_update_top_speed_mono)
  also have "\<dots> \<le> VehicleState.top_speed (fast_loop_updates fp (fast_loop_update fp vs r) rs)"
    by (rule Cons.IH)
  finally show ?case by simp
qed

lemma read_sensor_data_speed:
  "0 \<le> speed (fst (read_sensor_data fp st rand1 rand2)) \<and>
   speed (fst (read_sensor_data fp st rand1 rand2)) \<le> 80"
  by (simp add: read_sensor_data_def Let_def)

lemma fast_loop_run_append:
  "fast_loop_run fp s (ds @ ds') = fast_loop_run fp (fast_loop_run fp s ds) ds'"
  by (induction ds arbitrary: s) simp_all

lemma fast_loop_iter_distance_mono:
  assumes "rounding (to_float fp)" "rounding (to_double fp)"
    and "to_float fp (total_distance (snd s)) = total_distance (snd s)"
  shows "total_distance (snd s) \<le> total_distance (snd (fast_loop_iter fp s d))"
    and "to_float fp (total_distance (snd (fast_loop_iter fp s d)))
           = total_distance (snd (fast_loop_iter fp s d))"
proof -
  let ?r = "fst (read_sensor_data fp (fst s) (fst d) (snd d))"
  have u: "snd (fast_loop_iter fp s d) = fast_loop_update fp (snd s) ?r"
    by (simp add: fast_loop_iter_def split_beta)
  have p: "0 \<le> speed ?r" using read_sensor_data_speed by simp
  show "total_distance (snd s) \<le> total_distance (snd (fast_loop_iter fp s d))"
    unfolding u using assms p by (rule fast_loop_update_distance_mono(1))
  show "to_float fp (total_distance (snd (fast_loop_iter fp s d)))
           = total_distance (snd (fast_loop_iter fp s d))"
    unfolding u using assms p by (rule fast_loop_update_distance_mono(2))
qed

lemma fast_loop_run_distance_mono:
  assumes "rounding (to_float fp)" "rounding (to_double fp)"
  shows "to_float fp (total_distance (snd s)) = total_distance (snd s) \<Longrightarrow>
    total_distance (snd s) \<le> total_distance (snd (fast_loop_run fp s ds)) \<and>
    to_float fp (total_distance (snd (fast_loop_run fp s ds)))
      = total_distance (snd (fast_loop_run fp s ds))"
proof (induction ds arbitrary: s)
  case Nil
  then show ?case by simp
next
  case (Cons d ds)
  note a = fast_loop_iter_distance_mono [OF assms Cons.prems, of d]
  from Cons.IH [OF a(2)] a(1) show ?case by simp
qed

lemma fast_loop_run_top_speed_mono:
  "VehicleState.top_speed (snd s) \<le> VehicleState.top_speed (snd (fast_loop_run fp s ds))"
proof (induction ds arbitrary: s)
  case Nil
  then show ?case by simp
next
  case (Cons d ds)
  have "VehicleState.top_speed (snd s) \<le> VehicleState.top_speed (snd (fast_loop_iter fp s d))"
    by (simp add: fast_loop_iter_def split_beta fast_loop_update_top_speed_mono)
  also have "\<dots> \<le> VehicleState.top_speed (snd (fast_loop_run fp (fast_loop_iter fp s d) ds))"
    by (rule Cons.IH)
  finally show ?case by simp
qed

lemma fast_loop_run_mono:
  assumes "rounding (to_float fp)" "rounding (to_double fp)"
  shows "total_distance (snd (fast_loop_run fp (st, vehicle_state0) ds))
           \<le> total_distance (snd (fast_loop_run fp (st, vehicle_state0) (ds @ ds')))"
proof -
  have z: "to_float fp (total_distance (snd (st, vehicle_state0))) = total_distance (snd (st, vehicle_state0))"
    using assms(1) by (simp add: rounding_def vehicle_state0_def)
  have "to_float fp (total_distance (snd (fast_loop_run fp (st, vehicle_state0) ds)))
      = total_distance (snd (fast_loop_run fp (st, vehicle_state0) ds))"
    using fast_loop_run_distance_mono [OF assms z] by simp
  then show ?thesis
    using fast_loop_run_distance_mono [OF assms, of "fast_loop_run fp (st, vehicle_state0) ds" ds']
    by (simp add: fast_loop_run_append)
qed

text \<open>
  Claim C4. Along any sequence of updates from the initial state, with readings of
  non-negative speed, \<open>total_distance\<close> and \<open>top_speed\<close> never decrease: their values
  after a part \<open>rs\<close> of the sequence are at most their values after more of it,
  \<open>rs @ rs'\<close>. The sensor source only returns non-negative speeds, so the same holds
  along the iterations of the sensor loop, whatever \<^verbatim>\<open>rand()\<close> draws. The roundings to
  \<^verbatim>\<open>float\<close> and \<^verbatim>\<open>double\<close> are any two that are monotone and keep zero and rounded
  values.
\<close>

theorem distance_top_speed_monotone:
  assumes "rounding (to_float fp)" and "rounding (to_double fp)"
    and "\<forall>r\<in>set (rs @ rs'). 0 \<le> speed r"
  shows "total_distance (fast_loop_updates fp vehicle_state0 rs)
           \<le> total_distance (fast_loop_updates fp vehicle_state0 (rs @ rs')) \<and>
         VehicleState.top_speed (fast_loop_updates fp vehicle_state0 rs)
           \<le> VehicleState.top_speed (fast_loop_updates fp vehicle_state0 (rs @ rs')) \<and>
         0 \<le> speed (fst (read_sensor_data fp st rand1 rand2)) \<and>
         total_distance (snd (fast_loop_run fp (st, vehicle_state0) ds))
           \<le> total_distance (snd (fast_loop_run fp (st, vehicle_state0) (ds @ ds'))) \<and>
         VehicleState.top_speed (snd (fast_loop_run fp (st, vehicle_state0) ds))
           \<le> VehicleState.top_speed (snd (fast_loop_run fp (st, vehicle_state0) (ds @ ds')))"
proof -
  have z: "to_float fp (total_distance vehicle_state0) = total_distance vehicle_state0"
    using assms(1) by (simp add: rounding_def vehicle_state0_def)
  have r: "\<forall>r\<in>set rs. 0 \<le> speed r" and r': "\<forall>r\<in>set rs'. 0 \<le> speed r"
    using assms(3) by simp_all
  have "to_float fp (total_distance (fast_loop_updates fp vehicle_state0 rs))
      = total_distance (fast_loop_updates fp vehicle_state0 rs)"
    using assms(1,2) z r by (rule fast_loop_updates_rounded)
  then have "total_distance (fast_loop_updates fp vehicle_state0 rs)
      \<le> total_distance (fast_loop_updates fp (fast_loop_updates fp vehicle_state0 rs) rs')"
    using r' by (rule fast_loop_updates_mono [OF assms(1,2)])
  moreover have "total_distance (snd (fast_loop_run fp (st, vehicle_state0) ds))
      \<le> total_distance (snd (fast_loop_run fp (st, vehicle_state0) (ds @ ds')))"
    using assms(1,2) by (rule fast_loop_run_mono)
  moreover have "VehicleState.top_speed (snd (fast_loop_run fp (st, vehicle_state0) ds))
      \<le> VehicleState.top_speed (snd (fast_loop_run fp (st, vehicle_state0) (ds @ ds')))"
    by (simp add: fast_loop_run_append fast_loop_run_top_speed_mono)
  ultimately show ?thesis
    by (simp add: fast_loop_updates_append fast_loop_updates_top_speed_mono read_sensor_data_speed)
qed

text \<open>Rounding at work: the second reading adds \<open>\<lfloor>0.25 * 2982\<rfloor> = 745\<close> units of
  \<open>1 / 2 ^ 30\<close>, not 745.5.\<close>

lemma fast_loop_updates_fine:
  "total_distance (fast_loop_updates fine_platform vehicle_state0 [sample1]) = 107352 / 1073741824"
  "total_distance (fast_loop_updates fine_platform vehicle_state0 [sample1, sample2]) = 108097 / 1073741824"
  by (simp_all add: fast_loop_update_def Let_def time_hours_fine vehicle_state0_def sample1_def sample2_def)
     (simp_all add: fine_platform_def)

text \<open>With rounding downwards: two readings of speeds 36 and 0.25, and two iterations
  of the loop.\<close>

theorem distance_top_speed_monotone_witness:
  "rounding (to_float fine_platform) \<and> rounding (to_double fine_platform) \<and>
   0 \<le> speed sample1 \<and> 0 \<le> speed sample2 \<and>
   total_distance (fast_loop_updates fine_platform vehicle_state0 [sample1])
     \<le> total_distance (fast_loop_updates fine_platform vehicle_state0 ([sample1] @ [sample2])) \<and>
   VehicleState.top_speed (fast_loop_updates fine_platform vehicle_state0 [sample1])
     \<le> VehicleState.top_speed (fast_loop_updates fine_platform vehicle_state0 ([sample1] @ [sample2])) \<and>
   0 \<le> speed (fst (read_sensor_data fine_platform sensor_statics0 20000 100)) \<and>
   total_distance (snd (fast_loop_run fine_platform (sensor_statics0, vehicle_state0) [(20000, 100)]))
     \<le> total_distance
         (snd (fast_loop_run fine_platform (sensor_statics0, vehicle_state0) ([(20000, 100)] @ [(30000, 5)]))) \<and>
   VehicleState.top_speed (snd (fast_loop_run fine_platform (sensor_statics0, vehicle_state0) [(20000, 100)]))
     \<le> VehicleState.top_speed
         (snd (fast_loop_run fine_platform (sensor_statics0, vehicle_state0) ([(20000, 100)] @ [(30000, 5)])))"
proof -
  have s: "\<forall>r\<in>set ([sample1] @ [sample2]). 0 \<le> speed r"
    by (simp add: sample1_def sample2_def)
  have "0 \<le> speed sample1" "0 \<le> speed sample2"
    by (simp_all add: sample1_def sample2_def)
  with rounding_fine
    distance_top_speed_monotone [OF rounding_fine s, of sensor_statics0 20000 100 "[(20000, 100)]" "[(30000, 5)]"]
  show ?thesis by blast
qed

lemma slow_loop_eval_frame:
  "slow_loop_eval fp loc (vs\<lparr>last_battery := x\<rparr>) now = slow_loop_eval fp loc vs now"
  by (simp add: slow_loop_eval_def)

text \<open>
  Claim C10. The field \<open>last_battery\<close> of the shared state is written by no update:
  one update, one iteration of the sensor loop, and any sequence of updates from
  the initial state leave it as it was, zero from the start. The logic thread does
  not read it (its iteration is the same for any value of the field) and keeps the
  battery value it last sent in its own \<open>last_battery_sent\<close>, which starts at 100.
\<close>

theorem last_battery_untouched:
  "last_battery (fast_loop_update fp vs r) = last_battery vs \<and>
   last_battery (snd (fast_loop_iter fp (st, vs) draws)) = last_battery vs \<and>
   last_battery (fast_loop_updates fp vehicle_state0 rs) = 0 \<and>
   slow_loop_iter fp (vs\<lparr>last_battery := x\<rparr>) now loc q = slow_loop_iter fp vs now loc q \<and>
   last_battery_sent (slow_loop_start t0) = 100"
proof -
  have u: "last_battery (fast_loop_update fp v r) = last_battery v" for v r
    by (simp add: fast_loop_update_def Let_def)
  have "last_battery (fast_loop_updates fp v rs) = last_battery v" for v
    by (induction rs arbitrary: v) (simp_all add: u)
  then have "last_battery (fast_loop_updates fp vehicle_state0 rs) = 0"
    by (simp add: vehicle_state0_def)
  moreover have "last_battery (snd (fast_loop_iter fp (st, vs) draws)) = last_battery vs"
    by (simp add: fast_loop_iter_def split_beta u)
  moreover have "slow_loop_iter fp (vs\<lparr>last_battery := x\<rparr>) now loc q = slow_loop_iter fp vs now loc q"
    by (simp add: slow_loop_iter_def slow_loop_eval_frame)
  ultimately show ?thesis
    by (simp add: u slow_loop_start_def)
qed

section \<open>The trigger rules\<close>

lemma slow_loop_eval_should_send:
  "should_send (slow_loop_eval fp loc vs now)
     = (rule_idle_battery fp loc vs \<or> rule_periodic loc vs now \<or> rule_critical_temp vs)"
  by (simp add: slow_loop_eval_def Let_def rule_idle_battery_def rule_periodic_def
      rule_critical_temp_def)

lemma slow_loop_eval_cloud_data:
  "cloud_data (slow_loop_eval fp loc vs now) = report_of vs now"
  by (simp add: slow_loop_eval_def Let_def report_of_def)

lemma slow_loop_eval_locals:
  "new_locals (slow_loop_eval fp loc vs now) =
     \<lparr>last_send_time = (if rule_periodic loc vs now then now else last_send_time loc),
      last_battery_sent =
        (if rule_idle_battery fp loc vs then battery (current_sensor vs) else last_battery_sent loc)\<rparr>"
  by (simp add: slow_loop_eval_def Let_def rule_idle_battery_def rule_periodic_def)

lemma slow_loop_iter_queue:
  "queue_after (slow_loop_iter fp vs now loc q)
     = (if rule_idle_battery fp loc vs \<or> rule_periodic loc vs now \<or> rule_critical_temp vs
        then snd (queue_enqueue q (report_of vs now)) else q)"
  using slow_loop_eval_should_send [of fp loc vs now]
  by (simp add: slow_loop_iter_def Let_def split_beta slow_loop_eval_cloud_data)

lemma slow_loop_iter_locals:
  "locals_after (slow_loop_iter fp vs now loc q) = new_locals (slow_loop_eval fp loc vs now)"
  by (simp add: slow_loop_iter_def Let_def split_beta)

lemma queue_enqueue_length:
  "queue_inv q \<Longrightarrow> length (queue_list (snd (queue_enqueue q d))) \<le> length (queue_list q) + 1"
  by (cases "count q < QUEUE_SIZE")
     (simp_all add: queue_enqueue_list queue_enqueue_full)

text \<open>
  Claim C5. In one iteration of the logic thread, whichever of the three rules hold,
  one record is built, from the state just read; \<^verbatim>\<open>should_send\<close> is set exactly when at
  least one rule holds; the queue after the iteration is the queue after one call
  of \<^verbatim>\<open>queue_enqueue\<close> with that record when a rule holds, and the queue as it was
  when none does. So an iteration adds at most one record, and on a queue that is
  not full exactly one when a rule holds.
\<close>

theorem one_report_per_tick:
  "should_send (slow_loop_eval fp loc vs now)
     = (rule_idle_battery fp loc vs \<or> rule_periodic loc vs now \<or> rule_critical_temp vs) \<and>
   cloud_data (slow_loop_eval fp loc vs now) = report_of vs now \<and>
   queue_after (slow_loop_iter fp vs now loc q)
     = (if rule_idle_battery fp loc vs \<or> rule_periodic loc vs now \<or> rule_critical_temp vs
        then snd (queue_enqueue q (report_of vs now)) else q) \<and>
   (queue_inv q \<longrightarrow>
      length (queue_list (queue_after (slow_loop_iter fp vs now loc q))) \<le> length (queue_list q) + 1) \<and>
   (queue_inv q \<and> count q < QUEUE_SIZE \<longrightarrow>
      queue_list (queue_after (slow_loop_iter fp vs now loc q))
        = queue_list q @
          (if rule_idle_battery fp loc vs \<or> rule_periodic loc vs now \<or> rule_critical_temp vs
           then [report_of vs now] else []))"
proof (intro conjI impI)
  let ?fired = "rule_idle_battery fp loc vs \<or> rule_periodic loc vs now \<or> rule_critical_temp vs"
  let ?q' = "queue_after (slow_loop_iter fp vs now loc q)"
  show "should_send (slow_loop_eval fp loc vs now) = ?fired"
    by (rule slow_loop_eval_should_send)
  show "cloud_data (slow_loop_eval fp loc vs now) = report_of vs now"
    by (rule slow_loop_eval_cloud_data)
  show q': "?q' = (if ?fired then snd (queue_enqueue q (report_of vs now)) else q)"
    by (rule slow_loop_iter_queue)
  show "length (queue_list ?q') \<le> length (queue_list q) + 1" if "queue_inv q"
    using that queue_enqueue_length [of q "report_of vs now"] unfolding q'
    by (cases ?fired) simp_all
  show "queue_list ?q' = queue_list q @ (if ?fired then [report_of vs now] else [])"
    if "queue_inv q \<and> count q < QUEUE_SIZE"
    using that queue_enqueue_list [of q "report_of vs now"] unfolding q'
    by (cases ?fired) simp_all
qed

text \<open>Standing, with the battery 0.7 below the value last sent and a temperature of
  72: two rules hold and print their lines, one record is enqueued.\<close>

theorem one_report_per_tick_witness:
  "rule_idle_battery exact_platform (slow_loop_start 4500) idle_hot_state \<and>
   rule_critical_temp idle_hot_state \<and>
   queue_inv queue_start \<and> count queue_start < QUEUE_SIZE \<and>
   queue_list (queue_after (slow_loop_iter exact_platform idle_hot_state 5000 (slow_loop_start 4500) queue_start))
     = [report_of idle_hot_state 5000] \<and>
   events (slow_loop_iter exact_platform idle_hot_state 5000 (slow_loop_start 4500) queue_start)
     = [Printed ''[Logic] Battery changed while idle'', Printed ''[Logic] CRITICAL TEMP ALERT!'',
        Slept_micros 100000]"
proof -
  have s: "idle_hot_state =
      \<lparr>total_distance = 29 / 288000, VehicleState.top_speed = 36, last_battery = 0,
       is_moving = False, current_sensor = sample2\<rparr>"
    by (simp add: idle_hot_state_def fast_loop_update_def Let_def time_hours_exact
        vehicle_state0_def sample1_def sample2_def)
       (simp add: exact_platform_def)
  have r1: "rule_idle_battery exact_platform (slow_loop_start 4500) idle_hot_state"
    by (simp add: s rule_idle_battery_def slow_loop_start_def sample2_def exact_platform_def)
  have r3: "rule_critical_temp idle_hot_state"
    by (simp add: s rule_critical_temp_def sample2_def)
  have c: "count queue_start < QUEUE_SIZE"
    by (simp add: queue_start_def queue_init_def QUEUE_SIZE_def)
  have e: "events (slow_loop_iter exact_platform idle_hot_state 5000 (slow_loop_start 4500) queue_start)
     = [Printed ''[Logic] Battery changed while idle'', Printed ''[Logic] CRITICAL TEMP ALERT!'',
        Slept_micros 100000]"
    using c
    by (simp add: slow_loop_iter_def slow_loop_eval_def Let_def split_beta s sample2_def
        slow_loop_start_def exact_platform_def queue_enqueue_def)
  have "queue_list (queue_after (slow_loop_iter exact_platform idle_hot_state 5000 (slow_loop_start 4500) queue_start))
      = queue_list queue_start @
        (if rule_idle_battery exact_platform (slow_loop_start 4500) idle_hot_state
            \<or> rule_periodic (slow_loop_start 4500) idle_hot_state 5000
            \<or> rule_critical_temp idle_hot_state
         then [report_of idle_hot_state 5000] else [])"
    using one_report_per_tick [of exact_platform "slow_loop_start 4500" idle_hot_state 5000 queue_start]
      c queue_inv_start by blast
  then have "queue_list (queue_after (slow_loop_iter exact_platform idle_hot_state 5000 (slow_loop_start 4500) queue_start))
      = [report_of idle_hot_state 5000]"
    using r1 queue_list_start by simp
  with r1 r3 c queue_inv_start e show ?thesis by blast
qed


lemma full_queue_count: "count full_queue = QUEUE_SIZE"
  using enqueue_replicate_count [of run_start 1000 zero_cloud_data] queue_inv_start
  by (simp add: full_queue_def full_calls_def run_start_def queue_start_def queue_init_def
      QUEUE_SIZE_def)

lemma full_queue_inv: "queue_inv full_queue"
  using run_inv_calls [OF run_inv_start, of full_calls]
  by (simp add: full_queue_def run_inv_def)

lemma queue_start_count: "count queue_start < QUEUE_SIZE"
  by (simp add: queue_start_def queue_init_def QUEUE_SIZE_def)

lemma idle_hot_state_eq:
  "idle_hot_state =
      \<lparr>total_distance = 29 / 288000, VehicleState.top_speed = 36, last_battery = 0,
       is_moving = False, current_sensor = sample2\<rparr>"
  by (simp add: idle_hot_state_def fast_loop_update_def Let_def time_hours_exact
      vehicle_state0_def sample1_def sample2_def)
     (simp add: exact_platform_def)

lemma idle_state_eq:
  "idle_state =
      \<lparr>total_distance = 29 / 288000, VehicleState.top_speed = 36, last_battery = 0,
       is_moving = False, current_sensor = sample2\<lparr>temp := 65\<rparr>\<rparr>"
  by (simp add: idle_state_def fast_loop_update_def Let_def time_hours_exact
      vehicle_state0_def sample1_def sample2_def)
     (simp add: exact_platform_def)

lemma moving_state_eq:
  "moving_state =
      \<lparr>total_distance = 1 / 10000, VehicleState.top_speed = 36, last_battery = 0,
       is_moving = True, current_sensor = sample1\<rparr>"
  by (simp add: moving_state_def fast_loop_update_def Let_def time_hours_exact
      vehicle_state0_def sample1_def)
     (simp add: exact_platform_def)

text \<open>
  A record is not enqueued on every iteration with a temperature above 70, as claim
  C6 has it: on the full queue \<^verbatim>\<open>queue_enqueue\<close> rejects it. With a temperature of 72
  and the battery rule holding as well, the queue stays as it was, and the thread
  prints its warning.
\<close>

theorem rule_tick_full_queue_counterexample:
  "temp (current_sensor idle_hot_state) > 70 \<and>
   queue_inv full_queue \<and> count full_queue = 1000 \<and>
   queue_after (slow_loop_iter exact_platform idle_hot_state 5000 (slow_loop_start 4500) full_queue)
     = full_queue \<and>
   queue_list (queue_after (slow_loop_iter exact_platform idle_hot_state 5000 (slow_loop_start 4500) full_queue))
     \<noteq> queue_list full_queue @ [report_of idle_hot_state 5000] \<and>
   events (slow_loop_iter exact_platform idle_hot_state 5000 (slow_loop_start 4500) full_queue)
     = [Printed ''[Logic] Battery changed while idle'', Printed ''[Logic] CRITICAL TEMP ALERT!'',
        Printed ''[Logic] Warning: Queue full!'', Slept_micros 100000]"
proof -
  have "temp (current_sensor idle_hot_state) > 70"
    by (simp add: idle_hot_state_eq sample2_def)
  moreover have "count full_queue = 1000"
    using full_queue_count by (simp add: QUEUE_SIZE_def)
  moreover have "queue_enqueue full_queue d = (False, full_queue)" for d
    using full_queue_count by (simp add: queue_enqueue_full)
  then have "queue_after (slow_loop_iter exact_platform idle_hot_state 5000 (slow_loop_start 4500) full_queue)
       = full_queue \<and>
     events (slow_loop_iter exact_platform idle_hot_state 5000 (slow_loop_start 4500) full_queue)
       = [Printed ''[Logic] Battery changed while idle'', Printed ''[Logic] CRITICAL TEMP ALERT!'',
          Printed ''[Logic] Warning: Queue full!'', Slept_micros 100000]"
    by (simp add: slow_loop_iter_def slow_loop_eval_def Let_def idle_hot_state_eq sample2_def
        slow_loop_start_def exact_platform_def)
  ultimately show ?thesis using full_queue_inv by auto
qed

text \<open>
  Claim C6, amended: on a queue that is not full. Standing, with the battery more
  than 0.5 away (as \<^verbatim>\<open>battery_change\<close> computes it) from the value last sent and a
  temperature of at most 70: exactly one record joins the queue, and
  \<^verbatim>\<open>last_battery_sent\<close> becomes the battery value sent. Moving, 1000 ms or more after
  \<^verbatim>\<open>last_send_time\<close>: exactly one record joins the queue, and \<^verbatim>\<open>last_send_time\<close> becomes
  the record's timestamp. With a temperature above 70: one record joins the queue,
  whatever the other two rules. The locals after the iteration do not depend on the
  temperature: the third rule changes none.
\<close>

theorem rule_independence:
  assumes "queue_inv q" and "count q < QUEUE_SIZE"
  shows
    "(\<not> is_moving vs
        \<and> \<bar>to_float fp (battery (current_sensor vs) - last_battery_sent loc)\<bar> > 0.5
        \<and> temp (current_sensor vs) \<le> 70 \<longrightarrow>
        queue_list (queue_after (slow_loop_iter fp vs now loc q)) = queue_list q @ [report_of vs now]
        \<and> last_battery_sent (locals_after (slow_loop_iter fp vs now loc q)) = battery (current_sensor vs)
        \<and> last_send_time (locals_after (slow_loop_iter fp vs now loc q)) = last_send_time loc) \<and>
     (is_moving vs \<and> now - last_send_time loc \<ge> 1000 \<longrightarrow>
        queue_list (queue_after (slow_loop_iter fp vs now loc q)) = queue_list q @ [report_of vs now]
        \<and> last_send_time (locals_after (slow_loop_iter fp vs now loc q)) = now
        \<and> last_battery_sent (locals_after (slow_loop_iter fp vs now loc q)) = last_battery_sent loc) \<and>
     (temp (current_sensor vs) > 70 \<longrightarrow>
        queue_list (queue_after (slow_loop_iter fp vs now loc q)) = queue_list q @ [report_of vs now]) \<and>
     locals_after (slow_loop_iter fp (vs\<lparr>current_sensor := (current_sensor vs)\<lparr>temp := t\<rparr>\<rparr>) now loc q)
       = locals_after (slow_loop_iter fp vs now loc q)"
proof -
  let ?fired = "rule_idle_battery fp loc vs \<or> rule_periodic loc vs now \<or> rule_critical_temp vs"
  have l: "queue_list (queue_after (slow_loop_iter fp vs now loc q)) = queue_list q @ [report_of vs now]"
    if ?fired
    using that assms by (simp add: slow_loop_iter_queue queue_enqueue_list)
  have "locals_after (slow_loop_iter fp (vs\<lparr>current_sensor := (current_sensor vs)\<lparr>temp := t\<rparr>\<rparr>) now loc q)
       = locals_after (slow_loop_iter fp vs now loc q)"
    by (simp add: slow_loop_iter_locals slow_loop_eval_locals rule_idle_battery_def rule_periodic_def)
  then show ?thesis
    using l
    by (auto simp: slow_loop_iter_locals slow_loop_eval_locals rule_idle_battery_def rule_periodic_def
        rule_critical_temp_def)
qed

text \<open>One iteration for each rule, on the empty queue.\<close>

theorem rule_independence_witness:
  "queue_inv queue_start \<and> count queue_start < QUEUE_SIZE \<and>
   \<not> is_moving idle_state \<and>
   \<bar>to_float exact_platform (battery (current_sensor idle_state) - last_battery_sent (slow_loop_start 4500))\<bar> > 0.5 \<and>
   temp (current_sensor idle_state) \<le> 70 \<and>
   queue_list (queue_after (slow_loop_iter exact_platform idle_state 5000 (slow_loop_start 4500) queue_start))
     = [report_of idle_state 5000] \<and>
   last_battery_sent (locals_after (slow_loop_iter exact_platform idle_state 5000 (slow_loop_start 4500) queue_start))
     = 99.3 \<and>
   is_moving moving_state \<and> 5000 - last_send_time (slow_loop_start 4000) \<ge> 1000 \<and>
   queue_list (queue_after (slow_loop_iter exact_platform moving_state 5000 (slow_loop_start 4000) queue_start))
     = [report_of moving_state 5000] \<and>
   last_send_time (locals_after (slow_loop_iter exact_platform moving_state 5000 (slow_loop_start 4000) queue_start))
     = 5000 \<and>
   temp (current_sensor idle_hot_state) > 70 \<and>
   queue_list (queue_after (slow_loop_iter exact_platform idle_hot_state 5000 (slow_loop_start 4500) queue_start))
     = [report_of idle_hot_state 5000]"
proof -
  note t = rule_independence [OF queue_inv_start queue_start_count]
  have a: "\<not> is_moving idle_state"
    "\<bar>to_float exact_platform (battery (current_sensor idle_state) - last_battery_sent (slow_loop_start 4500))\<bar> > 0.5"
    "temp (current_sensor idle_state) \<le> 70"
    "battery (current_sensor idle_state) = 99.3"
    by (simp_all add: idle_state_eq sample2_def slow_loop_start_def exact_platform_def)
  have b: "is_moving moving_state" "5000 - last_send_time (slow_loop_start 4000) \<ge> 1000"
    by (simp_all add: moving_state_eq slow_loop_start_def)
  have c: "temp (current_sensor idle_hot_state) > 70"
    by (simp add: idle_hot_state_eq sample2_def)
  from t [of idle_state exact_platform "slow_loop_start 4500" 5000 0] a
  have ra: "queue_list (queue_after (slow_loop_iter exact_platform idle_state 5000 (slow_loop_start 4500) queue_start))
     = [report_of idle_state 5000]"
    "last_battery_sent (locals_after (slow_loop_iter exact_platform idle_state 5000 (slow_loop_start 4500) queue_start))
     = 99.3"
    by (simp_all add: queue_list_start)
  from t [of moving_state exact_platform "slow_loop_start 4000" 5000 0] b
  have rb: "queue_list (queue_after (slow_loop_iter exact_platform moving_state 5000 (slow_loop_start 4000) queue_start))
     = [report_of moving_state 5000]"
    "last_send_time (locals_after (slow_loop_iter exact_platform moving_state 5000 (slow_loop_start 4000) queue_start))
     = 5000"
    by (simp_all add: queue_list_start)
  from t [of idle_hot_state exact_platform "slow_loop_start 4500" 5000 0] c
  have rc: "queue_list (queue_after (slow_loop_iter exact_platform idle_hot_state 5000 (slow_loop_start 4500) queue_start))
     = [report_of idle_hot_state 5000]"
    by (simp add: queue_list_start)
  from queue_inv_start queue_start_count a(1-3) ra b rb c rc show ?thesis by blast
qed

text \<open>
  Claim C7. An iteration that sets \<^verbatim>\<open>should_send\<close> on a full queue leaves the queue as
  it was (the record is dropped) and prints the warning after the lines of the
  rules; on a queue with room the same iteration prints no warning. The locals
  after the iteration are the same in both cases, and so is the critical section
  of the next iteration, for any state and clock value.
\<close>

theorem queue_full_bookkeeping:
  assumes "should_send (slow_loop_eval fp loc vs now)"
    and "QUEUE_SIZE \<le> count q" and "count q_ok < QUEUE_SIZE"
  shows
    "queue_after (slow_loop_iter fp vs now loc q) = q \<and>
     events (slow_loop_iter fp vs now loc q)
       = eval_events (slow_loop_eval fp loc vs now)
         @ [Printed ''[Logic] Warning: Queue full!'', Slept_micros 100000] \<and>
     events (slow_loop_iter fp vs now loc q_ok)
       = eval_events (slow_loop_eval fp loc vs now) @ [Slept_micros 100000] \<and>
     locals_after (slow_loop_iter fp vs now loc q) = locals_after (slow_loop_iter fp vs now loc q_ok) \<and>
     slow_loop_eval fp (locals_after (slow_loop_iter fp vs now loc q)) vs' now'
       = slow_loop_eval fp (locals_after (slow_loop_iter fp vs now loc q_ok)) vs' now'"
proof -
  have "queue_enqueue q (cloud_data (slow_loop_eval fp loc vs now)) = (False, q)"
    using assms(2) by (rule queue_enqueue_full)
  moreover have "fst (queue_enqueue q_ok (cloud_data (slow_loop_eval fp loc vs now))) = True"
    using assms(3) by (rule queue_enqueue_ok)
  ultimately show ?thesis
    using assms(1) by (simp add: slow_loop_iter_def Let_def split_beta)
qed

text \<open>The full queue and the empty one: the battery value counts as sent on both.\<close>

theorem queue_full_bookkeeping_witness:
  "should_send (slow_loop_eval exact_platform (slow_loop_start 4500) idle_hot_state 5000) \<and>
   QUEUE_SIZE \<le> count full_queue \<and> count queue_start < QUEUE_SIZE \<and>
   queue_after (slow_loop_iter exact_platform idle_hot_state 5000 (slow_loop_start 4500) full_queue)
     = full_queue \<and>
   last_battery_sent
     (locals_after (slow_loop_iter exact_platform idle_hot_state 5000 (slow_loop_start 4500) full_queue))
     = 99.3 \<and>
   locals_after (slow_loop_iter exact_platform idle_hot_state 5000 (slow_loop_start 4500) full_queue)
     = locals_after (slow_loop_iter exact_platform idle_hot_state 5000 (slow_loop_start 4500) queue_start)"
proof -
  have s: "should_send (slow_loop_eval exact_platform (slow_loop_start 4500) idle_hot_state 5000)"
    by (simp add: slow_loop_eval_def Let_def idle_hot_state_eq sample2_def)
  have f: "QUEUE_SIZE \<le> count full_queue" by (simp add: full_queue_count)
  have b: "last_battery_sent
     (locals_after (slow_loop_iter exact_platform idle_hot_state 5000 (slow_loop_start 4500) full_queue))
     = 99.3"
    by (simp add: slow_loop_iter_locals slow_loop_eval_def Let_def idle_hot_state_eq sample2_def
        slow_loop_start_def exact_platform_def)
  from queue_full_bookkeeping [OF s f queue_start_count] s f queue_start_count b
  show ?thesis by blast
qed

section \<open>The sender's retry\<close>

lemma queue_list_count: "queue_inv q \<Longrightarrow> int (length (queue_list q)) = count q"
  by (simp add: length_queue_list queue_inv_def)

lemma enqueue_all_list:
  "queue_inv q \<Longrightarrow>
     queue_inv (enqueue_all q ds) \<and>
     queue_list (enqueue_all q ds) = queue_list q @ take (nat (QUEUE_SIZE - count q)) ds"
proof (induction ds arbitrary: q)
  case Nil
  then show ?case by simp
next
  case (Cons d ds)
  show ?case
  proof (cases "count q < QUEUE_SIZE")
    case True
    let ?q = "snd (queue_enqueue q d)"
    have i: "queue_inv ?q" using Cons.prems by (rule queue_enqueue_inv)
    have l: "queue_list ?q = queue_list q @ [d]" using Cons.prems True by (rule queue_enqueue_list)
    have c: "count ?q = count q + 1" using True by (rule queue_enqueue_count)
    have n: "nat (QUEUE_SIZE - count q) = Suc (nat (QUEUE_SIZE - count ?q))"
      using True c by simp
    from Cons.IH [OF i] l n show ?thesis by simp
  next
    case False
    then have "queue_enqueue q d = (False, q)" by (simp add: queue_enqueue_full)
    moreover from False have "nat (QUEUE_SIZE - count q) = 0" by simp
    ultimately show ?thesis using Cons.IH [OF Cons.prems] by simp
  qed
qed

lemma send_to_cloud_events:
  "snd (send_to_cloud d rand1 rand2) =
     (if fst (send_to_cloud d rand1 rand2) = FAILURE
      then [Slept_seconds (1 + rand1 smod 10), Printed ''[CLOUD] Send failed'']
      else [Slept_seconds (1 + rand1 smod 10),
            Printed_sent (battery (sensor d)) (speed (sensor d)) (temp (sensor d)) (distance d)])"
  by (simp add: send_to_cloud_def Let_def)

lemma send_to_cloud_status:
  "fst (send_to_cloud d rand1 rand2) = (if rand2 smod 10 < 9 then SUCCESS else FAILURE)"
  by (simp add: send_to_cloud_def Let_def)

lemma cloud_sender_iter_nonempty:
  assumes "queue_inv q" and "queue_list q = d # rest"
  shows "cloud_sender_iter rand1 rand2 arrivals q =
     (if fst (send_to_cloud d rand1 rand2) = FAILURE
      then (snd (queue_enqueue (enqueue_all (snd (queue_dequeue q)) arrivals) d),
            snd (send_to_cloud d rand1 rand2) @ [Printed ''[Cloud] Retrying...''])
      else (enqueue_all (snd (queue_dequeue q)) arrivals, snd (send_to_cloud d rand1 rand2)))"
    and "queue_inv (snd (queue_dequeue q))"
    and "queue_list (snd (queue_dequeue q)) = rest"
    and "count (snd (queue_dequeue q)) = int (length rest)"
proof -
  have c: "count q \<noteq> 0"
    using queue_list_count [OF assms(1)] assms(2) by simp
  have h: "fst (queue_dequeue q) = Some d"
    using queue_dequeue_list(1) [OF assms(1) c] assms(2) by simp
  show i: "queue_inv (snd (queue_dequeue q))" using assms(1) by (rule queue_dequeue_inv)
  show l: "queue_list (snd (queue_dequeue q)) = rest"
    using queue_dequeue_list(2) [OF assms(1) c] assms(2) by simp
  show "count (snd (queue_dequeue q)) = int (length rest)"
    using queue_list_count [OF i] l by simp
  obtain x q1 where x: "queue_dequeue q = (x, q1)" by (cases "queue_dequeue q")
  with h have "queue_dequeue q = (Some d, q1)" by simp
  then show "cloud_sender_iter rand1 rand2 arrivals q =
     (if fst (send_to_cloud d rand1 rand2) = FAILURE
      then (snd (queue_enqueue (enqueue_all (snd (queue_dequeue q)) arrivals) d),
            snd (send_to_cloud d rand1 rand2) @ [Printed ''[Cloud] Retrying...''])
      else (enqueue_all (snd (queue_dequeue q)) arrivals, snd (send_to_cloud d rand1 rand2)))"
    by (simp add: cloud_sender_iter_def split_beta Let_def)
qed

text \<open>
  Claim C8. One iteration of the sender on a queue whose oldest record is \<open>d\<close>, the
  rest of it being \<open>rest\<close>, while the logic thread passes \<open>arrivals\<close> to
  \<^verbatim>\<open>queue_enqueue\<close> during the send. When \<^verbatim>\<open>send_to_cloud\<close> fails and the queue has room,
  \<open>d\<close> is back in the queue once, as its last record, behind the arrivals. When it
  fails and the arrivals have filled the queue, \<open>d\<close> is not in the queue again and
  nothing is printed after the line of the retry. When it succeeds, the queue holds
  the rest and the arrivals that fit: \<open>d\<close> is not put back. And for a queue that holds \<open>d\<close>
  alone, a failed send followed by a successful one: after the first iteration the
  queue holds \<open>d\<close> alone again, after the second it is empty, and the lines printed
  are the failure, the retry and the sending of \<open>d\<close>.
\<close>

theorem sender_retry:
  assumes "queue_inv q" and "queue_list q = d # rest"
  shows
    "(fst (send_to_cloud d rand1 rand2) = FAILURE \<and> length rest + length arrivals < 1000 \<longrightarrow>
        queue_list (fst (cloud_sender_iter rand1 rand2 arrivals q)) = rest @ arrivals @ [d]) \<and>
     (fst (send_to_cloud d rand1 rand2) = FAILURE \<and> length rest + length arrivals \<ge> 1000 \<longrightarrow>
        queue_list (fst (cloud_sender_iter rand1 rand2 arrivals q))
          = rest @ take (1000 - length rest) arrivals \<and>
        snd (cloud_sender_iter rand1 rand2 arrivals q)
          = [Slept_seconds (1 + rand1 smod 10), Printed ''[CLOUD] Send failed'',
             Printed ''[Cloud] Retrying...'']) \<and>
     (fst (send_to_cloud d rand1 rand2) = SUCCESS \<longrightarrow>
        queue_list (fst (cloud_sender_iter rand1 rand2 arrivals q))
          = rest @ take (1000 - length rest) arrivals) \<and>
     (rest = [] \<and> fst (send_to_cloud d rand1 rand2) = FAILURE
        \<and> fst (send_to_cloud d rand3 rand4) = SUCCESS \<longrightarrow>
        queue_list (fst (cloud_sender_iter rand1 rand2 [] q)) = [d] \<and>
        queue_list (fst (cloud_sender_loop q [(rand1, rand2, []), (rand3, rand4, [])])) = [] \<and>
        snd (cloud_sender_loop q [(rand1, rand2, []), (rand3, rand4, [])])
          = [Slept_seconds (1 + rand1 smod 10), Printed ''[CLOUD] Send failed'',
             Printed ''[Cloud] Retrying...'',
             Slept_seconds (1 + rand3 smod 10),
             Printed_sent (battery (sensor d)) (speed (sensor d)) (temp (sensor d)) (distance d)])"
proof -
  let ?q1 = "snd (queue_dequeue q)"
  let ?q2 = "enqueue_all ?q1 arrivals"
  note it = cloud_sender_iter_nonempty [OF assms]
  have i2: "queue_inv ?q2"
    and l2: "queue_list ?q2 = rest @ take (1000 - length rest) arrivals"
    using enqueue_all_list [OF it(2), of arrivals] it(3,4)
    by (simp_all add: QUEUE_SIZE_def nat_diff_distrib')
  have c2: "count ?q2 = int (length (rest @ take (1000 - length rest) arrivals))"
    using queue_list_count [OF i2] l2 by simp
  have a: "queue_list (fst (cloud_sender_iter rand1 rand2 arrivals q)) = rest @ arrivals @ [d]"
    if "fst (send_to_cloud d rand1 rand2) = FAILURE" "length rest + length arrivals < 1000"
  proof -
    have t: "take (1000 - length rest) arrivals = arrivals" using that(2) by simp
    have "count ?q2 < QUEUE_SIZE" using c2 that(2) by (simp add: t QUEUE_SIZE_def)
    with i2 have "queue_list (snd (queue_enqueue ?q2 d)) = queue_list ?q2 @ [d]"
      by (rule queue_enqueue_list)
    then show ?thesis using that(1) l2 t by (simp add: it(1))
  qed
  have b: "queue_list (fst (cloud_sender_iter rand1 rand2 arrivals q))
          = rest @ take (1000 - length rest) arrivals \<and>
        snd (cloud_sender_iter rand1 rand2 arrivals q)
          = [Slept_seconds (1 + rand1 smod 10), Printed ''[CLOUD] Send failed'',
             Printed ''[Cloud] Retrying...'']"
    if "fst (send_to_cloud d rand1 rand2) = FAILURE" "length rest + length arrivals \<ge> 1000"
  proof -
    have "1000 \<le> length rest + min (length arrivals) (1000 - length rest)"
      using that(2) by linarith
    then have "QUEUE_SIZE \<le> count ?q2" unfolding c2 QUEUE_SIZE_def by simp
    then have "queue_enqueue ?q2 d = (False, ?q2)" by (rule queue_enqueue_full)
    then show ?thesis using that(1) l2 by (simp add: it(1) send_to_cloud_events)
  qed
  have c: "queue_list (fst (cloud_sender_iter rand1 rand2 arrivals q))
          = rest @ take (1000 - length rest) arrivals"
    if "fst (send_to_cloud d rand1 rand2) = SUCCESS"
    using that l2 by (simp add: it(1))
  have s: "queue_list (fst (cloud_sender_iter rand1 rand2 [] q)) = [d] \<and>
        queue_list (fst (cloud_sender_loop q [(rand1, rand2, []), (rand3, rand4, [])])) = [] \<and>
        snd (cloud_sender_loop q [(rand1, rand2, []), (rand3, rand4, [])])
          = [Slept_seconds (1 + rand1 smod 10), Printed ''[CLOUD] Send failed'',
             Printed ''[Cloud] Retrying...'',
             Slept_seconds (1 + rand3 smod 10),
             Printed_sent (battery (sensor d)) (speed (sensor d)) (temp (sensor d)) (distance d)]"
    if r: "rest = []" and f: "fst (send_to_cloud d rand1 rand2) = FAILURE"
      and g: "fst (send_to_cloud d rand3 rand4) = SUCCESS"
  proof -
    let ?qa = "fst (cloud_sender_iter rand1 rand2 [] q)"
    note ita = cloud_sender_iter_nonempty(1) [OF assms, of rand1 rand2 "[]"]
    have qa: "?qa = snd (queue_enqueue ?q1 d)" using f by (simp add: ita)
    have c1: "count ?q1 < QUEUE_SIZE" using it(4) r by (simp add: QUEUE_SIZE_def)
    have ia: "queue_inv ?qa" unfolding qa using it(2) by (rule queue_enqueue_inv)
    have la: "queue_list ?qa = [d]"
      unfolding qa using queue_enqueue_list [OF it(2) c1, of d] it(3) r by simp
    note itb = cloud_sender_iter_nonempty(1) [OF ia la, of rand3 rand4 "[]"]
    have eva: "snd (cloud_sender_iter rand1 rand2 [] q)
        = [Slept_seconds (1 + rand1 smod 10), Printed ''[CLOUD] Send failed'',
           Printed ''[Cloud] Retrying...'']"
      using f by (simp add: ita send_to_cloud_events)
    have qb: "fst (cloud_sender_iter rand3 rand4 [] ?qa) = snd (queue_dequeue ?qa)"
      and evb: "snd (cloud_sender_iter rand3 rand4 [] ?qa)
        = [Slept_seconds (1 + rand3 smod 10),
           Printed_sent (battery (sensor d)) (speed (sensor d)) (temp (sensor d)) (distance d)]"
      using g by (simp_all add: itb send_to_cloud_events)
    have lb: "queue_list (fst (cloud_sender_iter rand3 rand4 [] ?qa)) = []"
      unfolding qb by (rule cloud_sender_iter_nonempty(3) [OF ia la])
    show ?thesis
      using la lb eva evb by (simp add: split_beta)
  qed
  from a b c s show ?thesis by blast
qed


lemma queue_calls_enqueues:
  "queue (queue_calls r (map Enqueue ds)) = enqueue_all (queue r) ds"
  by (induction ds arbitrary: r) (simp_all add: queue_call_step_def split_beta)

lemma full_queue_list: "queue_list full_queue = zero_cloud_data # replicate 999 zero_cloud_data"
proof -
  have "full_queue = enqueue_all queue_start (replicate 1000 zero_cloud_data)"
    using queue_calls_enqueues [of run_start "replicate 1000 zero_cloud_data"]
    by (simp add: full_queue_def full_calls_def run_start_def)
  moreover have "count queue_start = 0"
    by (simp add: queue_start_def queue_init_def)
  ultimately have "queue_list full_queue = replicate 1000 zero_cloud_data"
    using enqueue_all_list [OF queue_inv_start, of "replicate 1000 zero_cloud_data"]
    by (simp add: queue_list_start QUEUE_SIZE_def)
  moreover have "replicate 1000 zero_cloud_data = zero_cloud_data # replicate 999 zero_cloud_data"
    by (simp add: replicate_Suc [symmetric] del: replicate_Suc)
  ultimately show ?thesis by simp
qed

lemma one_queue_inv: "queue_inv one_queue"
  unfolding one_queue_def using queue_inv_start by (rule queue_enqueue_inv)

lemma one_queue_list: "queue_list one_queue = [report_of moving_state 5000]"
  unfolding one_queue_def
  using queue_enqueue_list [OF queue_inv_start queue_start_count] by (simp add: queue_list_start)

text \<open>On the queue of one record, with and without an arrival, and on the full queue
  with one arrival: the draws 9 and 0 of \<^verbatim>\<open>rand()\<close> make the send fail and
  succeed.\<close>

theorem sender_retry_witness:
  "queue_inv one_queue \<and> queue_list one_queue = [report_of moving_state 5000] \<and>
   fst (send_to_cloud (report_of moving_state 5000) 3 9) = FAILURE \<and>
   fst (send_to_cloud (report_of moving_state 5000) 4 0) = SUCCESS \<and>
   queue_list (fst (cloud_sender_iter 3 9 [report_of idle_state 5100] one_queue))
     = [report_of idle_state 5100, report_of moving_state 5000] \<and>
   queue_list (fst (cloud_sender_iter 4 0 [report_of idle_state 5100] one_queue))
     = [report_of idle_state 5100] \<and>
   queue_list (fst (cloud_sender_iter 3 9 [] one_queue)) = [report_of moving_state 5000] \<and>
   queue_list (fst (cloud_sender_loop one_queue [(3, 9, []), (4, 0, [])])) = [] \<and>
   snd (cloud_sender_loop one_queue [(3, 9, []), (4, 0, [])])
     = [Slept_seconds 4, Printed ''[CLOUD] Send failed'', Printed ''[Cloud] Retrying...'',
        Slept_seconds 5, Printed_sent 99.4 36 65 (1 / 10000)] \<and>
   queue_inv full_queue \<and>
   queue_list full_queue = zero_cloud_data # replicate 999 zero_cloud_data \<and>
   fst (send_to_cloud zero_cloud_data 3 9) = FAILURE \<and>
   queue_list (fst (cloud_sender_iter 3 9 [report_of idle_state 5100] full_queue))
     = replicate 999 zero_cloud_data @ [report_of idle_state 5100] \<and>
   snd (cloud_sender_iter 3 9 [report_of idle_state 5100] full_queue)
     = [Slept_seconds 4, Printed ''[CLOUD] Send failed'', Printed ''[Cloud] Retrying...'']"
proof -
  have f: "fst (send_to_cloud d 3 9) = FAILURE" and g: "fst (send_to_cloud d 4 0) = SUCCESS" for d
    by (simp_all add: send_to_cloud_status)
  note one = sender_retry [OF one_queue_inv one_queue_list]
  have a: "queue_list (fst (cloud_sender_iter 3 9 [report_of idle_state 5100] one_queue))
     = [report_of idle_state 5100, report_of moving_state 5000]"
    using one [of 3 9 "[report_of idle_state 5100]"] f by simp
  have c: "queue_list (fst (cloud_sender_iter 4 0 [report_of idle_state 5100] one_queue))
     = [report_of idle_state 5100]"
    using one [of 4 0 "[report_of idle_state 5100]"] g by simp
  have s: "queue_list (fst (cloud_sender_iter 3 9 [] one_queue)) = [report_of moving_state 5000]"
    "queue_list (fst (cloud_sender_loop one_queue [(3, 9, []), (4, 0, [])])) = []"
    "snd (cloud_sender_loop one_queue [(3, 9, []), (4, 0, [])])
     = [Slept_seconds 4, Printed ''[CLOUD] Send failed'', Printed ''[Cloud] Retrying...'',
        Slept_seconds 5, Printed_sent 99.4 36 65 (1 / 10000)]"
    using one [of 3 9 "[]" 4 0] f g
    by (simp_all add: report_of_def moving_state_eq sample1_def)
  have b: "queue_list (fst (cloud_sender_iter 3 9 [report_of idle_state 5100] full_queue))
     = replicate 999 zero_cloud_data @ [report_of idle_state 5100]"
    "snd (cloud_sender_iter 3 9 [report_of idle_state 5100] full_queue)
     = [Slept_seconds 4, Printed ''[CLOUD] Send failed'', Printed ''[Cloud] Retrying...'']"
    using sender_retry [OF full_queue_inv full_queue_list, of 3 9 "[report_of idle_state 5100]"] f
    by simp_all
  from one_queue_inv one_queue_list f g a c s full_queue_inv full_queue_list b
  show ?thesis by blast
qed

section \<open>Reading the shared state under the mutex\<close>

text \<open>
  The two models agree: the four writes of the sensor thread, taken together, are
  \<open>fast_loop_update\<close>; the four reads of the logic thread, taken together, are the
  snapshot of the shared state; and the critical section of the logic thread
  depends on the shared state through its snapshot only.
\<close>

lemma fast_steps_critical_section:
  assumes "fast_at c = F_current"
  shows "shared (fast_step fp r4 (fast_step fp r3 (fast_step fp r2 (fast_step fp r1 c))))
           = fast_loop_update fp (shared c) (fast_sensor c)"
  using assms by (simp add: fast_step_def fast_loop_update_def Let_def)

lemma slow_steps_critical_section:
  assumes "slow_at c = S_current"
  shows "seen (slow_step (slow_step (slow_step (slow_step c)))) = snapshot (shared c)"
  using assms by (simp add: slow_step_def seen_def snapshot_def)

lemma slow_loop_eval_snapshot:
  assumes "snapshot vs = snapshot vs'"
  shows "slow_loop_eval fp loc vs now = slow_loop_eval fp loc vs' now"
  using assms by (simp add: slow_loop_eval_def snapshot_def)

lemma threads_inv_start: "threads_inv fp threads_start"
  by (simp add: threads_inv_def threads_start_def whole_updates_def)

lemma whole_updates_snoc:
  "fast_loop_updates fp vs (rs @ [r]) = fast_loop_update fp (fast_loop_updates fp vs rs) r"
  by (simp add: fast_loop_updates_append)


lemma inv_unlocked:
  "state_mutex c = None \<Longrightarrow> threads_inv fp c \<longleftrightarrow>
     (fast_at c = F_read \<or> fast_at c = F_lock) \<and> slow_at c = S_lock
       \<and> shared c = whole_updates fp c"
  by (simp add: threads_inv_def)

lemma inv_sensor:
  "state_mutex c = Some Sensor_thread \<Longrightarrow> threads_inv fp c \<longleftrightarrow>
     fast_at c \<noteq> F_read \<and> fast_at c \<noteq> F_lock \<and> slow_at c = S_lock
       \<and> shared c = half_update fp (fast_at c) (whole_updates fp c) (fast_sensor c)"
  by (simp add: threads_inv_def)

lemma threads_inv_fast_step:
  assumes "threads_inv fp c"
  shows "threads_inv fp (fast_step fp reading c)"
proof (cases "state_mutex c")
  case None
  with assms have "fast_at c = F_read \<or> fast_at c = F_lock" by (simp add: inv_unlocked)
  then show ?thesis
  proof
    assume "fast_at c = F_read"
    with assms None show ?thesis
      by (simp add: threads_inv_def fast_step_def whole_updates_def)
  next
    assume "fast_at c = F_lock"
    with assms None show ?thesis
      by (simp add: threads_inv_def fast_step_def whole_updates_def)
  qed
next
  case (Some t)
  show ?thesis
  proof (cases t)
    case Sensor_thread
    with Some have m: "state_mutex c = Some Sensor_thread" by simp
    note i = assms [unfolded inv_sensor [OF m]]
    show ?thesis
    proof (cases "fast_at c")
      case F_read
      with i show ?thesis by simp
    next
      case F_lock
      with i show ?thesis by simp
    next
      case F_current
      with i m show ?thesis
        by (simp add: threads_inv_def fast_step_def whole_updates_def)
    next
      case F_distance
      with i m show ?thesis
        by (simp add: threads_inv_def fast_step_def whole_updates_def)
    next
      case F_top_speed
      with i m show ?thesis
        by (simp add: threads_inv_def fast_step_def whole_updates_def max_def)
    next
      case F_moving
      with i m show ?thesis
        by (simp add: threads_inv_def fast_step_def whole_updates_def fast_loop_update_def Let_def max_def)
    next
      case F_unlock
      with i m show ?thesis
        by (simp add: threads_inv_def fast_step_def whole_updates_def whole_updates_snoc)
    qed
  next
    case Logic_thread
    with Some have m: "state_mutex c = Some Logic_thread" by simp
    with assms have "fast_at c = F_read \<or> fast_at c = F_lock" by (simp add: threads_inv_def)
    then show ?thesis
    proof
      assume "fast_at c = F_read"
      with assms m show ?thesis
        by (simp add: threads_inv_def fast_step_def whole_updates_def)
    next
      assume "fast_at c = F_lock"
      with assms m show ?thesis
        by (simp add: threads_inv_def fast_step_def whole_updates_def)
    qed
  qed
qed


lemma inv_logic:
  "state_mutex c = Some Logic_thread \<Longrightarrow> threads_inv fp c \<longleftrightarrow>
     (fast_at c = F_read \<or> fast_at c = F_lock) \<and> slow_at c \<noteq> S_lock
       \<and> shared c = whole_updates fp c
       \<and> (slow_at c \<in> {S_moving, S_distance, S_top_speed, S_unlock}
             \<longrightarrow> seen_current c = current_sensor (shared c))
       \<and> (slow_at c \<in> {S_distance, S_top_speed, S_unlock}
             \<longrightarrow> seen_moving c = is_moving (shared c))
       \<and> (slow_at c \<in> {S_top_speed, S_unlock}
             \<longrightarrow> seen_distance c = total_distance (shared c))
       \<and> (slow_at c = S_unlock \<longrightarrow> seen_top_speed c = VehicleState.top_speed (shared c))"
  by (simp add: threads_inv_def)

lemma threads_inv_slow_step:
  assumes "threads_inv fp c"
  shows "threads_inv fp (slow_step c)"
proof (cases "state_mutex c")
  case None
  with assms have "slow_at c = S_lock" by (simp add: inv_unlocked)
  with assms None show ?thesis
    by (simp add: threads_inv_def slow_step_def whole_updates_def)
next
  case (Some t)
  show ?thesis
  proof (cases t)
    case Sensor_thread
    with Some have m: "state_mutex c = Some Sensor_thread" by simp
    with assms have "slow_at c = S_lock" by (simp add: inv_sensor)
    with assms m show ?thesis
      by (simp add: slow_step_def)
  next
    case Logic_thread
    with Some have m: "state_mutex c = Some Logic_thread" by simp
    note i = assms [unfolded inv_logic [OF m]]
    show ?thesis
    proof (cases "slow_at c")
      case S_lock
      with i show ?thesis by simp
    next
      case S_current
      with i m show ?thesis
        by (simp add: threads_inv_def slow_step_def whole_updates_def)
    next
      case S_moving
      with i m show ?thesis
        by (simp add: threads_inv_def slow_step_def whole_updates_def)
    next
      case S_distance
      with i m show ?thesis
        by (simp add: threads_inv_def slow_step_def whole_updates_def)
    next
      case S_top_speed
      with i m show ?thesis
        by (simp add: threads_inv_def slow_step_def whole_updates_def)
    next
      case S_unlock
      with i m show ?thesis
        by (simp add: threads_inv_def slow_step_def whole_updates_def)
    qed
  qed
qed

lemma threads_inv_run: "threads_inv fp c \<Longrightarrow> threads_inv fp (run_threads fp c ts)"
  by (induction fp c ts rule: run_threads.induct)
     (simp_all add: threads_inv_fast_step threads_inv_slow_step)

lemma threads_inv_seen:
  assumes "threads_inv fp c" and "slow_at c = S_unlock"
  shows "seen c = snapshot (whole_updates fp c)" and "state_mutex c = Some Logic_thread"
proof -
  show m: "state_mutex c = Some Logic_thread"
  proof (cases "state_mutex c")
    case None
    with assms show ?thesis by (simp add: inv_unlocked)
  next
    case (Some t)
    with assms show ?thesis by (cases t) (simp_all add: inv_sensor)
  qed
  from assms show "seen c = snapshot (whole_updates fp c)"
    unfolding inv_logic [OF m] by (simp add: seen_def snapshot_def)
qed

text \<open>
  Claim C9. In every interleaving of the statements of the sensor thread and the
  logic thread, when the logic thread has made its four reads of the shared state
  (it is at its unlock), the values it holds for the current reading, \<open>is_moving\<close>,
  \<open>total_distance\<close> and \<open>top_speed\<close> are those of one state: the state after the
  updates completed so far, each of them whole.
\<close>

theorem snapshot_consistent:
  "slow_at (run_threads fp threads_start ts) = S_unlock \<longrightarrow>
     seen (run_threads fp threads_start ts)
       = snapshot (fast_loop_updates fp vehicle_state0 (updates_done (run_threads fp threads_start ts)))"
proof
  assume "slow_at (run_threads fp threads_start ts) = S_unlock"
  with threads_inv_run [OF threads_inv_start, of fp ts]
  show "seen (run_threads fp threads_start ts)
       = snapshot (fast_loop_updates fp vehicle_state0 (updates_done (run_threads fp threads_start ts)))"
    unfolding whole_updates_def [symmetric] by (rule threads_inv_seen(1))
qed



lemma sample_update:
  "fast_loop_updates exact_platform vehicle_state0 [sample1] =
     \<lparr>total_distance = 1 / 10000, VehicleState.top_speed = 36, last_battery = 0,
      is_moving = True, current_sensor = sample1\<rparr>"
  using moving_state_eq by (simp add: moving_state_def)

text \<open>
  After six turns the sensor thread is between its writes (the reading stored,
  \<open>top_speed\<close> not yet) and the logic thread waits at its lock. At the end the logic
  thread has read the state after the first update, while the sensor thread waits
  with its second reading.
\<close>

theorem snapshot_consistent_witness:
  "slow_at (run_threads exact_platform threads_start (take 6 contended_turns)) = S_lock \<and>
   state_mutex (run_threads exact_platform threads_start (take 6 contended_turns)) = Some Sensor_thread \<and>
   current_sensor (shared (run_threads exact_platform threads_start (take 6 contended_turns))) = sample1 \<and>
   VehicleState.top_speed (shared (run_threads exact_platform threads_start (take 6 contended_turns))) = 0 \<and>
   slow_at (run_threads exact_platform threads_start contended_turns) = S_unlock \<and>
   fast_at (run_threads exact_platform threads_start contended_turns) = F_lock \<and>
   updates_done (run_threads exact_platform threads_start contended_turns) = [sample1] \<and>
   seen (run_threads exact_platform threads_start contended_turns) = (sample1, True, 1 / 10000, 36) \<and>
   seen (run_threads exact_platform threads_start contended_turns)
     = snapshot (fast_loop_updates exact_platform vehicle_state0 [sample1])"
proof -
  have a: "run_threads exact_platform threads_start (take 6 contended_turns) =
      threads_start\<lparr>shared := vehicle_state0\<lparr>current_sensor := sample1, total_distance := 1 / 10000\<rparr>,
        state_mutex := Some Sensor_thread, fast_at := F_top_speed, fast_sensor := sample1\<rparr>"
    by (simp add: contended_turns_def threads_start_def fast_step_def slow_step_def
        time_hours_exact vehicle_state0_def sample1_def)
       (simp add: exact_platform_def)
  have b: "run_threads exact_platform threads_start contended_turns =
      \<lparr>shared = fast_loop_updates exact_platform vehicle_state0 [sample1],
       state_mutex = Some Logic_thread, fast_at = F_lock, fast_sensor = sample2,
       slow_at = S_unlock, seen_current = sample1, seen_moving = True, seen_distance = 1 / 10000,
       seen_top_speed = 36, updates_done = [sample1]\<rparr>"
    unfolding sample_update
    by (simp add: contended_turns_def threads_start_def fast_step_def slow_step_def
        time_hours_exact vehicle_state0_def sample1_def)
       (simp add: exact_platform_def)
  have c: "slow_at (run_threads exact_platform threads_start contended_turns) = S_unlock"
    "updates_done (run_threads exact_platform threads_start contended_turns) = [sample1]"
    by (simp_all add: b)
  have d: "seen (run_threads exact_platform threads_start contended_turns)
     = snapshot (fast_loop_updates exact_platform vehicle_state0 [sample1])"
    using snapshot_consistent [of exact_platform contended_turns] c by simp
  have e: "seen (run_threads exact_platform threads_start contended_turns) = (sample1, True, 1 / 10000, 36)"
    by (simp add: b seen_def)
  have f: "slow_at (run_threads exact_platform threads_start (take 6 contended_turns)) = S_lock"
    "state_mutex (run_threads exact_platform threads_start (take 6 contended_turns)) = Some Sensor_thread"
    "current_sensor (shared (run_threads exact_platform threads_start (take 6 contended_turns))) = sample1"
    "VehicleState.top_speed (shared (run_threads exact_platform threads_start (take 6 contended_turns))) = 0"
    unfolding a by (simp_all add: threads_start_def vehicle_state0_def)
  have g: "fast_at (run_threads exact_platform threads_start contended_turns) = F_lock"
    by (simp add: b)
  from f c(1) g c(2) e d show ?thesis by (intro conjI)
qed

end
